theory Spec2Isabelle
  imports Main
begin

section \<open>Byte arrays (QByteArray) and the library operations the reply uses\<close>

text \<open>
  A \<open>QByteArray\<close> is a sequence of 8-bit bytes; \<open>char\<close> is exactly a byte, so a byte array is
  a \<open>string\<close>. The operations below are the ones \<open>local_socket_reply.cpp\<close> calls on byte arrays;
  they follow the behaviour documented for Qt 5, the version the file was written against.
\<close>

type_synonym QByteArray = string

abbreviation LF :: char where "LF \<equiv> CHR 0x0A"
abbreviation CR :: char where "CR \<equiv> CHR 0x0D"
abbreviation NUL :: char where "NUL \<equiv> CHR 0x00"
abbreviation CRLF :: QByteArray where "CRLF \<equiv> [CR, LF]"

text \<open>\<open>constexpr int len = 65536\<close>: the size of the receive buffer and of every socket read.\<close>

definition len :: nat where
  "len = 65536"

text \<open>\<open>QByteArray::isEmpty()\<close>.\<close>

definition isEmpty :: "QByteArray \<Rightarrow> bool" where
  "isEmpty b = (b = [])"

text \<open>\<open>QByteArray::startsWith(char)\<close>.\<close>

fun startsWith :: "QByteArray \<Rightarrow> char \<Rightarrow> bool" where
  "startsWith [] c = False"
| "startsWith (x # xs) c = (x = c)"

text \<open>The needle occurs at the very start of the bytes (byte-wise comparison, case-sensitive).\<close>

fun matches_at_start :: "QByteArray \<Rightarrow> QByteArray \<Rightarrow> bool" where
  "matches_at_start [] hay = True"
| "matches_at_start (n # ns) [] = False"
| "matches_at_start (n # ns) (h # hs) = (n = h \<and> matches_at_start ns hs)"

text \<open>\<open>QByteArray::contains(const char *)\<close>: the needle occurs somewhere, compared byte by byte
  (the comparison is case-sensitive).\<close>

fun contains :: "QByteArray \<Rightarrow> QByteArray \<Rightarrow> bool" where
  "contains [] needle = (needle = [])"
| "contains (h # hs) needle = (matches_at_start needle (h # hs) \<or> contains hs needle)"

text \<open>The white space \<open>QByteArray::trimmed()\<close> removes: space and the bytes 9 to 13. The byte 0
  is not white space.\<close>

definition ascii_isspace :: "char \<Rightarrow> bool" where
  "ascii_isspace c =
     (c = CHR '' '' \<or> c = CHR 0x09 \<or> c = LF \<or> c = CHR 0x0B \<or> c = CHR 0x0C \<or> c = CR)"

text \<open>\<open>QByteArray::trimmed()\<close>: white space removed from the start and from the end.\<close>

definition trimmed :: "QByteArray \<Rightarrow> QByteArray" where
  "trimmed b = rev (dropWhile ascii_isspace (rev (dropWhile ascii_isspace b)))"

text \<open>\<open>QByteArray::split(char sep)\<close>: the pieces between the separators; \<open>n\<close> separators give
  \<open>n + 1\<close> pieces, so the result is never empty.\<close>

fun split :: "QByteArray \<Rightarrow> char \<Rightarrow> QByteArray list" where
  "split [] sep = [[]]"
| "split (c # cs) sep =
     (if c = sep then [] # split cs sep
      else (case split cs sep of [] \<Rightarrow> [[c]] | l # ls \<Rightarrow> (c # l) # ls))"

text \<open>\<open>QByteArray::number(qint64)\<close>: the decimal digits of a number.\<close>

definition digit_char :: "nat \<Rightarrow> char" where
  "digit_char d = ''0123456789'' ! d"

fun number_nat :: "nat \<Rightarrow> QByteArray" where
  "number_nat n = (if n < 10 then [digit_char n] else number_nat (n div 10) @ [digit_char (n mod 10)])"

declare number_nat.simps [simp del]

definition number :: "int \<Rightarrow> QByteArray" where
  "number n = (if n < 0 then CHR ''-'' # number_nat (nat (- n)) else number_nat (nat n))"

text \<open>An ASCII decimal digit and its value, as \<open>\d\<close> of the regular expression and
  \<open>QString::toInt\<close> read them.\<close>

definition isdigit :: "char \<Rightarrow> bool" where
  "isdigit c = (c \<in> set ''0123456789'')"

definition digit_value :: "char \<Rightarrow> int" where
  "digit_value c = int (of_char c) - 48"

text \<open>\<open>QString::toInt()\<close> on a string of decimal digits (the only strings the status capture
  yields).\<close>

definition toInt :: "string \<Rightarrow> int" where
  "toInt s = foldl (\<lambda>acc c. 10 * acc + digit_value c) 0 s"

text \<open>\<open>QString::fromLatin1(const QByteArray &)\<close>: one character for each byte, up to the first
  zero byte (Qt 5 measures the array with \<open>qstrnlen\<close>).\<close>

definition fromLatin1 :: "QByteArray \<Rightarrow> string" where
  "fromLatin1 b = takeWhile (\<lambda>c. c \<noteq> NUL) b"

text \<open>
  The match of the regular expression
  \<^verbatim>\<open>^HTTP/\d\.\d (?P<status>\d{3})\ (?P<message>.*)$\<close>
  against a subject, with the default options of \<open>QRegularExpression\<close>: the match is anchored at
  the start, \<open>\d\<close> is an ASCII digit, the dot is any character but a line feed, and \<open>$\<close> is
  the end of the subject or the position before a line feed that ends the subject. The result
  is the pair of the captures \<open>status\<close> and \<open>message\<close>, or \<open>None\<close> when there is no match.
\<close>

fun http_status_regex_match :: "string \<Rightarrow> (string \<times> string) option" where
  "http_status_regex_match (h # t1 # t2 # p # sl # v1 # dot # v2 # sp1 # d1 # d2 # d3 # sp2 # rest) =
     (if h = CHR ''H'' \<and> t1 = CHR ''T'' \<and> t2 = CHR ''T'' \<and> p = CHR ''P'' \<and> sl = CHR ''/''
         \<and> isdigit v1 \<and> dot = CHR ''.'' \<and> isdigit v2 \<and> sp1 = CHR '' ''
         \<and> isdigit d1 \<and> isdigit d2 \<and> isdigit d3 \<and> sp2 = CHR '' ''
         \<and> (dropWhile (\<lambda>c. c \<noteq> LF) rest = [] \<or> dropWhile (\<lambda>c. c \<noteq> LF) rest = [LF])
      then Some ([d1, d2, d3], takeWhile (\<lambda>c. c \<noteq> LF) rest)
      else None)"
| "http_status_regex_match _ = None"

section \<open>The reply object\<close>

text \<open>The values of \<open>QNetworkReply::NetworkError\<close> the file uses.\<close>

datatype NetworkError =
    NoError
  | ProtocolInvalidOperationError
  | AuthenticationRequiredError
  | ContentAccessDenied
  | ContentNotFoundError
  | ContentConflictError
  | InternalServerError
  | UnknownServerError
  | UnknownContentError
  | ProtocolFailure
  | OperationCanceledError

text \<open>The signals the reply emits, recorded in the order of emission.\<close>

datatype signal = Error_signal NetworkError | Finished_signal

text \<open>The open mode of the reply as a \<open>QIODevice\<close>.\<close>

datatype OpenMode = NotOpen | ReadOnly

text \<open>What the model reports where the C++ has undefined behaviour.\<close>

datatype fault =
    IteratorPastEnd    \<comment> \<open>the line iterator is dereferenced at or beyond \<open>constEnd()\<close>\<close>
  | BufferOverrun      \<comment> \<open>a read of up to \<open>len\<close> bytes into a smaller buffer\<close>
  | NegativeCopy       \<comment> \<open>\<open>memcpy\<close> with a negative count\<close>

text \<open>
  The transport, a \<open>QLocalSocket\<close>: whether it is connected, the bytes it has received and that
  were not read yet, and the bytes written to it.
\<close>

record QLocalSocket =
  connected :: bool
  available :: QByteArray
  written :: QByteArray

text \<open>
  The state of a \<open>LocalSocketReply\<close>: its own members (\<open>local_socket\<close>, \<open>reply_data\<close>,
  \<open>content_data\<close>, \<open>offset\<close>, \<open>chunked_transfer_encoding\<close>) and the state it keeps in its base
  classes (\<open>error()\<close>, \<open>errorString()\<close>, \<open>isFinished()\<close>, \<open>openMode()\<close>), with the signals
  emitted so far.
\<close>

record LocalSocketReply =
  local_socket :: QLocalSocket
  reply_data :: QByteArray
  content_data :: QByteArray
  offset :: int
  chunked_transfer_encoding :: bool
  error :: NetworkError
  errorString :: string
  isFinished :: bool
  openMode :: OpenMode
  emitted :: "signal list"

text \<open>The request: the custom verb attribute and the URL as text.\<close>

record QNetworkRequest =
  verb :: QByteArray
  url :: string

subsection \<open>Base class operations\<close>

definition setError :: "NetworkError \<Rightarrow> string \<Rightarrow> LocalSocketReply \<Rightarrow> LocalSocketReply" where
  "setError code msg r = r\<lparr>error := code, errorString := msg\<rparr>"

definition setFinished :: "bool \<Rightarrow> LocalSocketReply \<Rightarrow> LocalSocketReply" where
  "setFinished b r = r\<lparr>isFinished := b\<rparr>"

definition emit :: "signal \<Rightarrow> LocalSocketReply \<Rightarrow> LocalSocketReply" where
  "emit s r = r\<lparr>emitted := emitted r @ [s]\<rparr>"


subsection \<open>Socket operations\<close>

text \<open>\<open>QLocalSocket::read(data, maxSize)\<close>: at most \<open>maxSize\<close> of the bytes available, which
  leave the socket; the count is 0 when nothing is available and -1 on a socket that is not
  connected.\<close>

definition socket_read :: "nat \<Rightarrow> QLocalSocket \<Rightarrow> int \<times> QByteArray \<times> QLocalSocket" where
  "socket_read maxSize s =
     (if \<not> connected s then (- 1, [], s)
      else (int (length (take maxSize (available s))), take maxSize (available s),
            s\<lparr>available := drop maxSize (available s)\<rparr>))"

text \<open>\<open>QLocalSocket::write\<close> followed by \<open>flush\<close>.\<close>

definition socket_write :: "QByteArray \<Rightarrow> QLocalSocket \<Rightarrow> QLocalSocket" where
  "socket_write bs s = s\<lparr>written := written s @ bs\<rparr>"


text \<open>The peer sends bytes: they become available on the socket (after which the socket
  signals \<open>readyRead\<close>).\<close>

definition receive :: "QByteArray \<Rightarrow> LocalSocketReply \<Rightarrow> LocalSocketReply" where
  "receive bs r = r\<lparr>local_socket := (local_socket r)\<lparr>available := available (local_socket r) @ bs\<rparr>\<rparr>"

section \<open>The functions of \<open>local_socket_reply.cpp\<close>\<close>

subsection \<open>\<open>statusCodeFromHttp\<close>\<close>

definition statusCodeFromHttp :: "int \<Rightarrow> NetworkError" where
  "statusCodeFromHttp httpStatusCode =
     (if httpStatusCode = 400 then ProtocolInvalidOperationError
      else if httpStatusCode = 401 then AuthenticationRequiredError
      else if httpStatusCode = 403 then ContentAccessDenied
      else if httpStatusCode = 404 then ContentNotFoundError
      else if httpStatusCode = 409 then ContentConflictError
      else if httpStatusCode = 500 then InternalServerError
      else if httpStatusCode > 500 then UnknownServerError
      else UnknownContentError)"

subsection \<open>\<open>parse_status\<close>\<close>

definition parse_status :: "QByteArray \<Rightarrow> LocalSocketReply \<Rightarrow> LocalSocketReply" where
  "parse_status status r =
     (case http_status_regex_match (fromLatin1 status) of
        None \<Rightarrow>
          emit (Error_signal ProtocolFailure)
            (setError ProtocolFailure ''Malformed HTTP response from server'' r)
      | Some (status_captured, message_captured) \<Rightarrow>
          (let statusCode = toInt status_captured in
           if statusCode \<ge> 400
           then (let error_code = statusCodeFromHttp statusCode in
                 emit (Error_signal error_code) (setError error_code message_captured r))
           else r))"

subsection \<open>\<open>parse_reply\<close>\<close>

text \<open>
  The \<open>for\<close> loop over the lines after the status line. The argument is the list of lines from
  the iterator on; at a separator line (empty, or starting with a carriage return) the iterator
  moves one line on, or two when the chunked flag is set, and that line, trimmed, becomes the
  content. The C++ does not compare the moved iterator with \<open>constEnd()\<close>; dereferencing it
  there is the fault \<open>IteratorPastEnd\<close>.
\<close>

fun header_loop :: "QByteArray list \<Rightarrow> LocalSocketReply \<Rightarrow> fault + LocalSocketReply" where
  "header_loop [] r = Inr r"
| "header_loop (line # rest) r =
     (let r1 = (if contains line ''Transfer-Encoding'' \<and> contains line ''chunked''
                then r\<lparr>chunked_transfer_encoding := True\<rparr> else r)
      in if isEmpty line \<or> startsWith line CR
         then (let k = (if chunked_transfer_encoding r1 then 1 else 0 :: nat)
               in if k < length rest
                  then Inr (r1\<lparr>content_data := trimmed (rest ! k)\<rparr>)
                  else Inl IteratorPastEnd)
         else header_loop rest r1)"

definition parse_reply :: "LocalSocketReply \<Rightarrow> fault + LocalSocketReply" where
  "parse_reply r =
     (case split (reply_data r) LF of
        [] \<Rightarrow> Inl IteratorPastEnd
      | status # reply_lines \<Rightarrow> header_loop reply_lines (parse_status status r))"

subsection \<open>\<open>read_reply\<close>\<close>

text \<open>
  The \<open>do ... while\<close> loop. Every read writes at \<open>reply_data.data()\<close>, the start of the buffer:
  the pointer \<open>data_ptr\<close> that the loop advances is not the one passed to \<open>read\<close>. The bytes read
  therefore replace the first bytes of the buffer and the rest of the buffer stays.
\<close>

function read_loop :: "LocalSocketReply \<Rightarrow> fault + LocalSocketReply" where
  "read_loop r =
     (case socket_read len (local_socket r) of
        (bytes_read, bs, s) \<Rightarrow>
          if length bs > length (reply_data r) then Inl BufferOverrun
          else (let r1 = r\<lparr>local_socket := s, reply_data := bs @ drop (length bs) (reply_data r)\<rparr>
                in if bytes_read > 0 then read_loop r1 else Inr r1))"
  by pat_completeness auto
termination
  by (relation "measure (\<lambda>r. length (available (local_socket r)))")
     (auto simp: socket_read_def len_def split: if_splits)

declare read_loop.simps [simp del]

definition read_reply :: "LocalSocketReply \<Rightarrow> fault + LocalSocketReply" where
  "read_reply r =
     (case read_loop r of
        Inl f \<Rightarrow> Inl f
      | Inr r1 \<Rightarrow>
          (case parse_reply r1 of
             Inl f \<Rightarrow> Inl f
           | Inr r2 \<Rightarrow> Inr (emit Finished_signal (setFinished True r2))))"

subsection \<open>\<open>send_request\<close>\<close>

text \<open>
  The bytes \<open>send_request\<close> builds in \<open>http_data\<close>. The version string comes from
  \<open>multipass/version.h\<close>, which is not part of the file, and is a parameter. The outgoing
  device is given by the bytes it holds, if there is a device: its \<open>size()\<close> is their number and
  \<open>readAll()\<close> returns them.
\<close>

definition http_data :: "string \<Rightarrow> QNetworkRequest \<Rightarrow> QByteArray option \<Rightarrow> QByteArray" where
  "http_data version_string request outgoingData =
     (let op = verb request in
      op @ '' '' @ url request @ '' HTTP/1.1'' @ CRLF
      @ ''Host: multipass'' @ CRLF
      @ ''User-Agent: Multipass/'' @ version_string @ CRLF
      @ (if op = ''POST'' \<or> op = ''PUT''
         then ''Content-Type: application/x-www-form-urlencoded'' @ CRLF
              @ (case outgoingData of
                   None \<Rightarrow> []
                 | Some body \<Rightarrow>
                     ''Content-Length: '' @ number (int (length body)) @ CRLF @ CRLF @ body)
         else [])
      @ CRLF)"

definition send_request ::
  "string \<Rightarrow> QNetworkRequest \<Rightarrow> QByteArray option \<Rightarrow> LocalSocketReply \<Rightarrow> LocalSocketReply" where
  "send_request version_string request outgoingData r =
     r\<lparr>local_socket := socket_write (http_data version_string request outgoingData) (local_socket r)\<rparr>"

subsection \<open>Constructor, destructor, \<open>abort\<close> and \<open>readData\<close>\<close>

text \<open>
  Modelled from the spec: the header \<open>local_socket_reply.h\<close> with the member declarations
  and their initial values is not part of the sources; following the spec, the reply is
  created empty (no content, no error, not finished), with the cursor \<open>offset\<close> at 0 and the
  chunked flag unset. The rest is the constructor taking a socket as the file has it: the reply
  is opened for reading, the buffer is \<open>len\<close> zero bytes, and the request is sent.
\<close>

definition construct ::
  "string \<Rightarrow> QLocalSocket \<Rightarrow> QNetworkRequest \<Rightarrow> QByteArray option \<Rightarrow> LocalSocketReply" where
  "construct version_string sock request outgoingData =
     send_request version_string request outgoingData
       \<lparr>local_socket = sock, reply_data = replicate len NUL, content_data = [], offset = 0,
        chunked_transfer_encoding = False, error = NoError, errorString = [],
        isFinished = False, openMode = ReadOnly, emitted = []\<rparr>"



text \<open>
  \<open>readData(data, maxSize)\<close>: the result is the number returned, the bytes copied to \<open>data\<close> and
  the new state. A negative count given to \<open>memcpy\<close> is the fault \<open>NegativeCopy\<close>. The cursor
  \<open>offset\<close> is a \<open>qint64\<close>; it never exceeds the size of the content, so no sum wraps around
  and the integers are unbounded here.
\<close>

definition readData :: "int \<Rightarrow> LocalSocketReply \<Rightarrow> fault + (int \<times> QByteArray \<times> LocalSocketReply)" where
  "readData maxSize r =
     (if offset r < int (length (content_data r))
      then (let n = min maxSize (int (length (content_data r)) - offset r) in
            if n < 0 then Inl NegativeCopy
            else Inr (n, take (nat n) (drop (nat (offset r)) (content_data r)),
                      r\<lparr>offset := offset r + n\<rparr>))
      else Inr (- 1, [], r))"

section \<open>Driving the reply and observing it\<close>

text \<open>One readiness notification: bytes arrive on the socket, the socket signals \<open>readyRead\<close>
  and the slot \<open>read_reply\<close> connected to it runs.\<close>

definition notification :: "QByteArray \<Rightarrow> LocalSocketReply \<Rightarrow> fault + LocalSocketReply" where
  "notification bs r = read_reply (receive bs r)"

text \<open>Several notifications in a row, stopping at a fault.\<close>

fun notifications :: "QByteArray list \<Rightarrow> LocalSocketReply \<Rightarrow> fault + LocalSocketReply" where
  "notifications [] r = Inr r"
| "notifications (bs # rest) r =
     (case notification bs r of Inl f \<Rightarrow> Inl f | Inr r1 \<Rightarrow> notifications rest r1)"

text \<open>What a caller sees of a reply: the body, the error with its message, the chunked flag,
  the buffer.\<close>

definition body_of :: "fault + LocalSocketReply \<Rightarrow> fault + QByteArray" where
  "body_of x = (case x of Inl f \<Rightarrow> Inl f | Inr r \<Rightarrow> Inr (content_data r))"

definition error_of :: "fault + LocalSocketReply \<Rightarrow> fault + NetworkError \<times> string" where
  "error_of x = (case x of Inl f \<Rightarrow> Inl f | Inr r \<Rightarrow> Inr (error r, errorString r))"

definition chunked_of :: "fault + LocalSocketReply \<Rightarrow> fault + bool" where
  "chunked_of x = (case x of Inl f \<Rightarrow> Inl f | Inr r \<Rightarrow> Inr (chunked_transfer_encoding r))"

definition buffer_of :: "fault + LocalSocketReply \<Rightarrow> fault + QByteArray" where
  "buffer_of x = (case x of Inl f \<Rightarrow> Inl f | Inr r \<Rightarrow> Inr (reply_data r))"

definition finished_of :: "fault + LocalSocketReply \<Rightarrow> fault + bool" where
  "finished_of x = (case x of Inl f \<Rightarrow> Inl f | Inr r \<Rightarrow> Inr (isFinished r))"

text \<open>What one call of \<open>readData\<close> delivers from the reply reached: the number returned and
  the bytes copied.\<close>

definition read_from :: "int \<Rightarrow> fault + LocalSocketReply \<Rightarrow> fault + int \<times> QByteArray" where
  "read_from maxSize x =
     (case x of
        Inl f \<Rightarrow> Inl f
      | Inr r \<Rightarrow> (case readData maxSize r of Inl f \<Rightarrow> Inl f | Inr (n, bs, r1) \<Rightarrow> Inr (n, bs)))"

text \<open>Successive calls of \<open>readData\<close>, one for each maximum size of the list: the numbers
  returned with the bytes delivered, and the final state.\<close>

fun readData_calls ::
  "int list \<Rightarrow> LocalSocketReply \<Rightarrow> fault + ((int \<times> QByteArray) list \<times> LocalSocketReply)" where
  "readData_calls [] r = Inr ([], r)"
| "readData_calls (m # ms) r =
     (case readData m r of
        Inl f \<Rightarrow> Inl f
      | Inr (n, bs, r1) \<Rightarrow>
          (case readData_calls ms r1 of
             Inl f \<Rightarrow> Inl f
           | Inr (res, r2) \<Rightarrow> Inr ((n, bs) # res, r2)))"




text \<open>The bytes written to the socket between an earlier and a later state of the reply.\<close>

definition sent :: "LocalSocketReply \<Rightarrow> LocalSocketReply \<Rightarrow> QByteArray" where
  "sent r r1 = drop (length (written (local_socket r))) (written (local_socket r1))"

subsection \<open>Reading a request back\<close>

text \<open>The lines of the header block of a message: the lines before the first separator line,
  with the separator test of \<open>parse_reply\<close>.\<close>

definition header_lines :: "QByteArray \<Rightarrow> QByteArray list" where
  "header_lines msg = takeWhile (\<lambda>l. \<not> (isEmpty l \<or> startsWith l CR)) (split msg LF)"

text \<open>The bytes after the blank-line separator, the first occurrence of CR LF CR LF.\<close>

fun after_blank_line :: "QByteArray \<Rightarrow> QByteArray" where
  "after_blank_line [] = []"
| "after_blank_line (x # xs) =
     (if matches_at_start [CR, LF, CR, LF] (x # xs) then drop 3 xs else after_blank_line xs)"

text \<open>The value of the first header line that starts with the given name and colon.\<close>

fun header_value :: "QByteArray \<Rightarrow> QByteArray list \<Rightarrow> QByteArray option" where
  "header_value name [] = None"
| "header_value name (l # ls) =
     (if matches_at_start (name @ '': '') l then Some (trimmed (drop (length name + 2) l))
      else header_value name ls)"

subsection \<open>The lines the header scan examines\<close>

text \<open>The test of \<open>parse_reply\<close> for the separator line: the line is empty or starts with a
  carriage return.\<close>

definition separator :: "QByteArray \<Rightarrow> bool" where
  "separator l = (isEmpty l \<or> startsWith l CR)"

text \<open>The lines after the first separator line.\<close>

definition after_separator :: "QByteArray list \<Rightarrow> QByteArray list" where
  "after_separator ls = drop 1 (dropWhile (\<lambda>l. \<not> separator l) ls)"

text \<open>The loop of \<open>parse_reply\<close> examines the lines after the status line up to and including
  the first separator line.\<close>

fun scanned :: "QByteArray list \<Rightarrow> QByteArray list" where
  "scanned [] = []"
| "scanned (l # ls) = (if isEmpty l \<or> startsWith l CR then [l] else l # scanned ls)"

subsection \<open>Chunked responses on the wire\<close>

text \<open>
  Modelled from the spec: the encoder of chunked bodies is the peer's and not part of the
  sources. The wire format is the one of the spec, \<open><hex-size>\r\n<chunk-bytes>\r\n\<close> repeated and
  terminated by a zero-size chunk, after a status line and header lines that each end with
  CR LF and a blank line.
\<close>

definition hex_char :: "nat \<Rightarrow> char" where
  "hex_char d = ''0123456789abcdef'' ! d"

fun hex_nat :: "nat \<Rightarrow> QByteArray" where
  "hex_nat n = (if n < 16 then [hex_char n] else hex_nat (n div 16) @ [hex_char (n mod 16)])"

declare hex_nat.simps [simp del]

definition chunk_encode :: "QByteArray list \<Rightarrow> QByteArray" where
  "chunk_encode chunks =
     concat (map (\<lambda>c. hex_nat (length c) @ CRLF @ c @ CRLF) chunks) @ ''0'' @ CRLF @ CRLF"

definition chunked_response :: "QByteArray \<Rightarrow> QByteArray list \<Rightarrow> QByteArray list \<Rightarrow> QByteArray" where
  "chunked_response status_line headers chunks =
     status_line @ CRLF @ concat (map (\<lambda>h. h @ CRLF) headers) @ CRLF @ chunk_encode chunks"

subsection \<open>Requests and replies used in the statements\<close>

text \<open>A request is well formed when its verb, its URL and the version string hold no line
  feed and the verb does not start with a carriage return.\<close>

definition well_formed_request :: "string \<Rightarrow> QNetworkRequest \<Rightarrow> bool" where
  "well_formed_request version_string request =
     (LF \<notin> set (verb request) \<and> \<not> startsWith (verb request) CR \<and> LF \<notin> set (url request)
      \<and> LF \<notin> set version_string)"

text \<open>The first line of the encoded request and its \<open>User-Agent\<close> line, as \<open>split\<close> at the line
  feeds yields them (the carriage return stays at the end of a line).\<close>

definition request_line :: "QNetworkRequest \<Rightarrow> QByteArray" where
  "request_line request = verb request @ '' '' @ url request @ '' HTTP/1.1'' @ [CR]"

definition user_agent_line :: "string \<Rightarrow> QByteArray" where
  "user_agent_line version_string = ''User-Agent: Multipass/'' @ version_string @ [CR]"

text \<open>A reply just constructed for a \<open>GET\<close> request on a connected socket.\<close>

definition fresh_reply :: LocalSocketReply where
  "fresh_reply =
     construct ''1.0'' \<lparr>connected = True, available = [], written = []\<rparr>
       \<lparr>verb = ''GET'', url = ''/1.0''\<rparr> None"

section \<open>Facts about the byte array operations\<close>

lemma split_not_Nil: "split b sep \<noteq> []"
  by (induction b) (auto split: list.splits)

lemma split_no_sep: "sep \<notin> set b \<Longrightarrow> split b sep = [b]"
  by (induction b) (auto split: list.splits)

lemma split_append_sep: "sep \<notin> set l \<Longrightarrow> split (l @ sep # rest) sep = l # split rest sep"
  by (induction l) (auto split: list.splits)

lemma hd_split: "hd (split b sep) = takeWhile (\<lambda>c. c \<noteq> sep) b"
  by (induction b) (auto simp: split_not_Nil split: list.splits)

lemma takeWhile_LF_append:
  "takeWhile (\<lambda>c. c \<noteq> LF) (xs @ LF # ys) = takeWhile (\<lambda>c. c \<noteq> LF) xs"
  by (induction xs) auto

lemma takeWhile_all: "x \<notin> set xs \<Longrightarrow> takeWhile (\<lambda>c. c \<noteq> x) xs = xs"
  by (induction xs) auto

lemma dropWhile_none: "x \<notin> set xs \<Longrightarrow> dropWhile (\<lambda>c. c \<noteq> x) xs = []"
  by (induction xs) auto

lemma dropWhile_append_if:
  "dropWhile P (xs @ ys) = (if \<forall>x \<in> set xs. P x then dropWhile P ys else dropWhile P xs @ ys)"
  by (induction xs) auto

lemma matches_at_start_append: "matches_at_start n h \<Longrightarrow> matches_at_start n (h @ s)"
  by (induction n h rule: matches_at_start.induct) auto

lemma contains_Nil: "contains h []"
  by (cases h) auto

lemma contains_append: "contains h n \<Longrightarrow> contains (h @ s) n"
proof (induction h)
  case Nil
  then show ?case by (simp add: contains_Nil)
next
  case (Cons x h)
  then show ?case using matches_at_start_append[of n "x # h" s] by auto
qed

subsection \<open>Trimming\<close>

lemma trimmed_snoc_CR: "trimmed (p @ [CR]) = trimmed p"
proof (cases "\<forall>x \<in> set p. ascii_isspace x")
  case True
  have cr: "ascii_isspace CR" by (simp add: ascii_isspace_def)
  from True have "dropWhile ascii_isspace (p @ [CR]) = []" "dropWhile ascii_isspace p = []"
    using cr by simp_all
  then show ?thesis unfolding trimmed_def by (simp only: rev.simps dropWhile.simps)
next
  case False
  have cr: "ascii_isspace CR" by (simp add: ascii_isspace_def)
  from False have "dropWhile ascii_isspace (p @ [CR]) = dropWhile ascii_isspace p @ [CR]"
    by (subst dropWhile_append_if) simp
  then show ?thesis using cr by (simp add: trimmed_def)
qed

lemma trimmed_first_line:
  "trimmed (takeWhile (\<lambda>c. c \<noteq> LF) (p @ [CR])) = trimmed (takeWhile (\<lambda>c. c \<noteq> LF) p)"
proof (cases "LF \<in> set p")
  case True
  then obtain a b where "p = a @ LF # b" by (auto simp: in_set_conv_decomp)
  then show ?thesis by (simp add: takeWhile_LF_append)
next
  case False
  then have "takeWhile (\<lambda>c. c \<noteq> LF) (p @ [CR]) = p @ [CR]" "takeWhile (\<lambda>c. c \<noteq> LF) p = p"
    by (induction p) auto
  then show ?thesis by (simp only: trimmed_snoc_CR)
qed

lemma trimmed_CR:
  assumes "\<forall>c \<in> set xs. \<not> ascii_isspace c"
  shows "trimmed (xs @ [CR]) = xs"
proof (cases xs rule: rev_cases)
  case Nil
  then show ?thesis by (simp add: trimmed_def ascii_isspace_def)
next
  case (snoc ys y)
  then have y: "\<not> ascii_isspace y" using assms by simp
  have "xs \<noteq> []" using snoc by simp
  then have "dropWhile ascii_isspace (xs @ [CR]) = xs @ [CR]"
    using assms by (cases xs) auto
  then show ?thesis using y snoc by (simp add: trimmed_def ascii_isspace_def)
qed

subsection \<open>Decimal digits\<close>

lemma digit_char_cases:
  "d < 10 \<Longrightarrow> d = 0 \<or> d = 1 \<or> d = 2 \<or> d = 3 \<or> d = 4 \<or> d = 5 \<or> d = 6 \<or> d = 7 \<or> d = 8 \<or> d = (9::nat)"
  by arith

lemma isdigit_digit_char: "d < 10 \<Longrightarrow> isdigit (digit_char d)"
  using digit_char_cases[of d] by (auto simp: isdigit_def digit_char_def)

lemma digit_value_digit_char: "d < 10 \<Longrightarrow> digit_value (digit_char d) = int d"
  using digit_char_cases[of d] by (auto simp: digit_value_def digit_char_def)

lemma digit_char_plain:
  "d < 10 \<Longrightarrow> \<not> ascii_isspace (digit_char d) \<and> digit_char d \<noteq> LF \<and> digit_char d \<noteq> NUL"
  using digit_char_cases[of d] by (auto simp: digit_char_def ascii_isspace_def)

lemma number_nat_plain:
  "c \<in> set (number_nat n) \<Longrightarrow> \<not> ascii_isspace c \<and> c \<noteq> LF \<and> c \<noteq> NUL"
proof (induction n rule: number_nat.induct)
  case (1 n)
  show ?case
  proof (cases "n < 10")
    case True
    then show ?thesis using "1.prems" digit_char_plain[of n]
      by (subst (asm) number_nat.simps) simp
  next
    case False
    then have "c \<in> set (number_nat (n div 10)) \<or> c = digit_char (n mod 10)"
      using "1.prems" by (subst (asm) number_nat.simps) auto
    then show ?thesis using 1 False digit_char_plain[of "n mod 10"] by auto
  qed
qed

lemma LF_notin_number_nat: "LF \<notin> set (number_nat n)"
  using number_nat_plain[of LF n] by auto

lemma number_nat_no_space: "c \<in> set (number_nat n) \<Longrightarrow> \<not> ascii_isspace c"
  using number_nat_plain[of c n] by auto

lemma toInt_snoc: "toInt (s @ [c]) = 10 * toInt s + digit_value c"
  by (simp add: toInt_def)

lemma toInt_number_nat: "toInt (number_nat n) = int n"
proof (induction n rule: number_nat.induct)
  case (1 n)
  show ?case
  proof (cases "n < 10")
    case True
    then show ?thesis
      by (subst number_nat.simps) (simp add: toInt_def digit_value_digit_char)
  next
    case False
    then have "toInt (number_nat (n div 10)) = int (n div 10)" using 1 by simp
    with False show ?thesis
      by (subst number_nat.simps) (simp add: toInt_snoc digit_value_digit_char zdiv_int zmod_int)
  qed
qed

lemma number_nat_three_digits:
  assumes "100 \<le> n" "n < 1000"
  shows "number_nat n = [digit_char (n div 100), digit_char (n div 10 mod 10), digit_char (n mod 10)]"
proof -
  have a: "\<not> n < 10" "\<not> n div 10 < 10" "n div 100 < 10" using assms by auto
  have e3: "number_nat (n div 100) = [digit_char (n div 100)]"
    using a by (subst number_nat.simps) simp
  have e2: "number_nat (n div 10) = number_nat (n div 100) @ [digit_char (n div 10 mod 10)]"
  proof -
    have "n div 10 div 10 = n div 100" by (simp add: div_mult2_eq)
    then show ?thesis using a by (subst number_nat.simps) simp
  qed
  have e1: "number_nat n = number_nat (n div 10) @ [digit_char (n mod 10)]"
    using a by (subst number_nat.simps) simp
  show ?thesis by (simp add: e1 e2 e3)
qed

section \<open>The status line\<close>

lemma fromLatin1_no_LF: "LF \<notin> set msg \<Longrightarrow> LF \<notin> set (fromLatin1 msg)"
  unfolding fromLatin1_def by (auto dest: set_takeWhileD)

lemma status_line_match:
  assumes "100 \<le> c" "c < 1000" "LF \<notin> set msg"
  shows "http_status_regex_match (fromLatin1 (''HTTP/1.1 '' @ number (int c) @ '' '' @ msg))
         = Some (number_nat c, fromLatin1 msg)"
proof -
  have d: "c div 100 < 10" "c div 10 mod 10 < 10" "c mod 10 < 10" using assms by auto
  have v: "isdigit CHR ''1''" by (simp add: isdigit_def)
  have n: "LF \<notin> set (takeWhile (\<lambda>c. c \<noteq> NUL) msg)"
    using fromLatin1_no_LF[OF assms(3)] by (simp add: fromLatin1_def)
  show ?thesis
    using assms d v n
    by (simp add: number_def number_nat_three_digits fromLatin1_def digit_char_plain
        isdigit_digit_char takeWhile_all dropWhile_none)
qed

lemma parse_status_line:
  assumes "100 \<le> c" "c < 1000" "LF \<notin> set msg"
  shows "parse_status (''HTTP/1.1 '' @ number (int c) @ '' '' @ msg) r =
     (if c \<ge> 400
      then emit (Error_signal (statusCodeFromHttp (int c)))
             (setError (statusCodeFromHttp (int c)) (fromLatin1 msg) r)
      else r)"
  using status_line_match[OF assms]
  by (simp add: parse_status_def toInt_number_nat Let_def)

text \<open>
  C2. For every status code from 100 to 599, \<open>parse_status\<close> on a status line with that code
  leaves the reply as it is when the code is below 400 and otherwise sets the error
  \<open>statusCodeFromHttp\<close> gives, with the reason phrase as message, and emits it; and the
  error is the one of the table: 400 \<open>ProtocolInvalidOperationError\<close>, 401
  \<open>AuthenticationRequiredError\<close>, 403 \<open>ContentAccessDenied\<close>, 404 \<open>ContentNotFoundError\<close>, 409
  \<open>ContentConflictError\<close>, 500 \<open>InternalServerError\<close>, 501 to 599 \<open>UnknownServerError\<close>, and
  402 and the other codes from 405 to 499 \<open>UnknownContentError\<close>.
\<close>

theorem status_classifier_table:
  assumes "100 \<le> c" "c \<le> 599" "LF \<notin> set msg"
  shows "(c < 400 \<longrightarrow> parse_status (''HTTP/1.1 '' @ number c @ '' '' @ msg) r = r) \<and>
         (400 \<le> c \<longrightarrow>
            parse_status (''HTTP/1.1 '' @ number c @ '' '' @ msg) r =
              emit (Error_signal (statusCodeFromHttp c))
                (setError (statusCodeFromHttp c) (fromLatin1 msg) r)) \<and>
         (c = 400 \<longrightarrow> statusCodeFromHttp c = ProtocolInvalidOperationError) \<and>
         (c = 401 \<longrightarrow> statusCodeFromHttp c = AuthenticationRequiredError) \<and>
         (c = 403 \<longrightarrow> statusCodeFromHttp c = ContentAccessDenied) \<and>
         (c = 404 \<longrightarrow> statusCodeFromHttp c = ContentNotFoundError) \<and>
         (c = 409 \<longrightarrow> statusCodeFromHttp c = ContentConflictError) \<and>
         (c = 500 \<longrightarrow> statusCodeFromHttp c = InternalServerError) \<and>
         (501 \<le> c \<longrightarrow> statusCodeFromHttp c = UnknownServerError) \<and>
         (c = 402 \<or> (405 \<le> c \<and> c \<le> 499 \<and> c \<noteq> 409) \<longrightarrow>
            statusCodeFromHttp c = UnknownContentError)"
proof -
  have c: "c = int (nat c)" "100 \<le> nat c" "nat c < 1000" using assms by auto
  have p: "parse_status (''HTTP/1.1 '' @ number c @ '' '' @ msg) r =
     (if c \<ge> 400
      then emit (Error_signal (statusCodeFromHttp c)) (setError (statusCodeFromHttp c) (fromLatin1 msg) r)
      else r)"
    using parse_status_line[OF c(2) c(3) assms(3), of r] c(1) by auto
  show ?thesis
    unfolding p by (auto simp: statusCodeFromHttp_def)
qed

theorem status_classifier_table_witness:
  "(100::int) \<le> 404 \<and> (404::int) \<le> 599 \<and> LF \<notin> set ''Not Found'' \<and>
   parse_status (''HTTP/1.1 '' @ number 404 @ '' '' @ ''Not Found'') fresh_reply =
     emit (Error_signal ContentNotFoundError)
       (setError ContentNotFoundError ''Not Found'' fresh_reply) \<and>
   statusCodeFromHttp 404 = ContentNotFoundError"
  using status_classifier_table[of 404 "''Not Found''" fresh_reply]
  by (simp add: fromLatin1_def)

section \<open>Reading the content\<close>

lemma readData_at_end_once:
  "int (length (content_data r)) \<le> offset r \<Longrightarrow> readData maxSize r = Inr (- 1, [], r)"
  by (simp add: readData_def)

text \<open>
  C8. Once the cursor \<open>offset\<close> has reached the end of the content, \<open>readData\<close> returns -1,
  copies no byte and leaves the reply as it is (the cursor, the error and the signals
  included), whatever the maximum size; so does every further call.
\<close>

theorem readData_after_end:
  assumes "int (length (content_data r)) \<le> offset r"
  shows "readData maxSize r = Inr (- 1, [], r) \<and>
         readData_calls ms r = Inr (map (\<lambda>m. (- 1, [])) ms, r)"
proof
  show "readData maxSize r = Inr (- 1, [], r)"
    using assms by (rule readData_at_end_once)
  show "readData_calls ms r = Inr (map (\<lambda>m. (- 1, [])) ms, r)"
    using assms by (induction ms) (simp_all add: readData_at_end_once)
qed

theorem readData_after_end_witness:
  "int (length (content_data (fresh_reply\<lparr>content_data := ''abc'', offset := 3\<rparr>)))
     \<le> offset (fresh_reply\<lparr>content_data := ''abc'', offset := 3\<rparr>) \<and>
   readData 10 (fresh_reply\<lparr>content_data := ''abc'', offset := 3\<rparr>)
     = Inr (- 1, [], fresh_reply\<lparr>content_data := ''abc'', offset := 3\<rparr>) \<and>
   readData_calls [10, 1, 0] (fresh_reply\<lparr>content_data := ''abc'', offset := 3\<rparr>)
     = Inr ([(- 1, []), (- 1, []), (- 1, [])], fresh_reply\<lparr>content_data := ''abc'', offset := 3\<rparr>)"
proof -
  have h: "int (length (content_data (fresh_reply\<lparr>content_data := ''abc'', offset := 3\<rparr>)))
     \<le> offset (fresh_reply\<lparr>content_data := ''abc'', offset := 3\<rparr>)"
    by simp
  show ?thesis
    using h readData_after_end[OF h, of 10 "[10, 1, 0]"]
    by (simp del: readData_calls.simps)
qed

section \<open>The encoded request\<close>

lemma http_data_lines:
  "http_data v q out =
     request_line q @ LF # (''Host: multipass'' @ [CR]) @ LF # user_agent_line v @ LF #
     (if verb q = ''POST'' \<or> verb q = ''PUT''
      then (''Content-Type: application/x-www-form-urlencoded'' @ [CR]) @ LF #
           (case out of None \<Rightarrow> []
            | Some body \<Rightarrow> (''Content-Length: '' @ number (int (length body)) @ [CR]) @ LF # [CR] @ LF # body)
      else []) @ [CR] @ LF # []"
  by (simp add: http_data_def request_line_def user_agent_line_def split: option.splits)

lemma request_line_facts:
  assumes "well_formed_request v q"
  shows "LF \<notin> set (request_line q)" "\<not> isEmpty (request_line q)" "\<not> startsWith (request_line q) CR"
    "LF \<notin> set (user_agent_line v)" "\<not> isEmpty (user_agent_line v)" "\<not> startsWith (user_agent_line v) CR"
  using assms
  by (auto simp: well_formed_request_def request_line_def user_agent_line_def isEmpty_def
      split: list.splits elim: startsWith.elims)

lemma header_lines_other:
  assumes wf: "well_formed_request v q" and m: "verb q \<noteq> ''POST''" "verb q \<noteq> ''PUT''"
  shows "header_lines (http_data v q out) =
           [request_line q, ''Host: multipass'' @ [CR], user_agent_line v]"
proof -
  define host where "host = ''Host: multipass'' @ [CR]"
  have h: "LF \<notin> set host" "\<not> isEmpty host" "\<not> startsWith host CR"
    by (simp_all add: host_def isEmpty_def)
  have e: "http_data v q out = request_line q @ LF # host @ LF # user_agent_line v @ LF # [CR] @ LF # []"
    using m by (simp add: http_data_lines host_def)
  have s: "split (http_data v q out) LF = [request_line q, host, user_agent_line v, [CR], []]"
    unfolding e using request_line_facts[OF wf] h
    by (simp add: split_append_sep)
  show ?thesis
    unfolding header_lines_def s using request_line_facts[OF wf] h
    by (simp add: host_def isEmpty_def)
qed


lemma header_lines_post_no_body:
  assumes wf: "well_formed_request v q" and m: "verb q = ''POST'' \<or> verb q = ''PUT''"
  shows "header_lines (http_data v q None) =
           [request_line q, ''Host: multipass'' @ [CR], user_agent_line v,
            ''Content-Type: application/x-www-form-urlencoded'' @ [CR]]"
proof -
  define host where "host = ''Host: multipass'' @ [CR]"
  define ctype where "ctype = ''Content-Type: application/x-www-form-urlencoded'' @ [CR]"
  have h: "LF \<notin> set host" "\<not> isEmpty host" "\<not> startsWith host CR"
    "LF \<notin> set ctype" "\<not> isEmpty ctype" "\<not> startsWith ctype CR"
    by (simp_all add: host_def ctype_def isEmpty_def)
  have e: "http_data v q None =
      request_line q @ LF # host @ LF # user_agent_line v @ LF # ctype @ LF # [CR] @ LF # []"
    using m by (auto simp add: http_data_lines host_def ctype_def)
  have s: "split (http_data v q None) LF = [request_line q, host, user_agent_line v, ctype, [CR], []]"
    unfolding e using request_line_facts[OF wf] h
    by (simp add: split_append_sep)
  show ?thesis
    unfolding header_lines_def s using request_line_facts[OF wf] h
    by (simp add: host_def ctype_def isEmpty_def)
qed

lemma header_lines_post_body:
  assumes wf: "well_formed_request v q" and m: "verb q = ''POST'' \<or> verb q = ''PUT''"
  shows "header_lines (http_data v q (Some body)) =
           [request_line q, ''Host: multipass'' @ [CR], user_agent_line v,
            ''Content-Type: application/x-www-form-urlencoded'' @ [CR],
            ''Content-Length: '' @ number (int (length body)) @ [CR]]"
proof -
  define host where "host = ''Host: multipass'' @ [CR]"
  define ctype where "ctype = ''Content-Type: application/x-www-form-urlencoded'' @ [CR]"
  define clen where "clen = ''Content-Length: '' @ number (int (length body)) @ [CR]"
  define rest where "rest = body @ CRLF"
  have h: "LF \<notin> set host" "\<not> isEmpty host" "\<not> startsWith host CR"
    "LF \<notin> set ctype" "\<not> isEmpty ctype" "\<not> startsWith ctype CR"
    "LF \<notin> set clen" "\<not> isEmpty clen" "\<not> startsWith clen CR"
    by (simp_all add: host_def ctype_def clen_def isEmpty_def number_def LF_notin_number_nat)
  have e: "http_data v q (Some body) =
      request_line q @ LF # host @ LF # user_agent_line v @ LF # ctype @ LF # clen @ LF # [CR] @ LF # rest"
    using m by (auto simp add: http_data_lines host_def ctype_def clen_def rest_def)
  have s: "split (http_data v q (Some body)) LF =
      request_line q # host # user_agent_line v # ctype # clen # [CR] # split rest LF"
    unfolding e using request_line_facts[OF wf] h
    by (simp add: split_append_sep)
  show ?thesis
    unfolding header_lines_def s using request_line_facts[OF wf] h
    by (simp add: host_def ctype_def clen_def isEmpty_def)
qed

lemma after_blank_line_skip:
  "LF \<notin> set xs \<Longrightarrow> after_blank_line (xs @ CR # LF # ys) = after_blank_line (CR # LF # ys)"
proof (induction xs)
  case Nil
  then show ?case by simp
next
  case (Cons x xs)
  from Cons.prems have nm: "\<not> matches_at_start [CR, LF, CR, LF] (x # xs @ CR # LF # ys)"
    by (cases xs) auto
  have "after_blank_line ((x # xs) @ CR # LF # ys) = after_blank_line (xs @ CR # LF # ys)"
    unfolding append_Cons after_blank_line.simps(2)[of x] using nm by (simp only: if_False)
  also have "\<dots> = after_blank_line (CR # LF # ys)"
    using Cons by simp
  finally show ?case .
qed

lemma after_blank_line_next:
  "\<not> startsWith l CR \<Longrightarrow> l \<noteq> [] \<Longrightarrow> LF \<notin> set l \<Longrightarrow>
   after_blank_line (CR # LF # l @ CR # LF # ys) = after_blank_line (CR # LF # ys)"
  using after_blank_line_skip[of l ys]
  by (cases l) auto

lemma after_blank_line_found: "after_blank_line (CR # LF # CR # LF # ys) = ys"
  by simp

lemma after_blank_line_post_body:
  assumes wf: "well_formed_request v q" and m: "verb q = ''POST'' \<or> verb q = ''PUT''"
  shows "after_blank_line (http_data v q (Some body)) = body @ CRLF"
proof -
  define l1 where "l1 = verb q @ '' '' @ url q @ '' HTTP/1.1''"
  define l2 where "l2 = ''Host: multipass''"
  define l3 where "l3 = ''User-Agent: Multipass/'' @ v"
  define l4 where "l4 = ''Content-Type: application/x-www-form-urlencoded''"
  define l5 where "l5 = ''Content-Length: '' @ number (int (length body))"
  have h: "LF \<notin> set l1" 
    "LF \<notin> set l2" "l2 \<noteq> []" "\<not> startsWith l2 CR"
    "LF \<notin> set l3" "l3 \<noteq> []" "\<not> startsWith l3 CR"
    "LF \<notin> set l4" "l4 \<noteq> []" "\<not> startsWith l4 CR"
    "LF \<notin> set l5" "l5 \<noteq> []" "\<not> startsWith l5 CR"
    using wf
    by (simp_all add: l1_def l2_def l3_def l4_def l5_def well_formed_request_def number_def LF_notin_number_nat)
  have e: "http_data v q (Some body) =
      l1 @ CR # LF # l2 @ CR # LF # l3 @ CR # LF # l4 @ CR # LF # l5 @ CR # LF # CR # LF # body @ CRLF"
    using m by (auto simp add: http_data_def l1_def l2_def l3_def l4_def l5_def)
  show ?thesis
    unfolding e using h
    by (simp only: after_blank_line_skip after_blank_line_next after_blank_line_found not_False_eq_True)
qed

lemma header_value_content_length:
  assumes wf: "well_formed_request v q" and m: "verb q = ''POST'' \<or> verb q = ''PUT''"
  shows "header_value ''Content-Length'' (header_lines (http_data v q (Some body)))
         = Some (number (int (length body)))"
proof -
  have r: "\<not> matches_at_start ''Content-Length: '' (request_line q)"
    using m by (auto simp: request_line_def)
  have u: "\<not> matches_at_start ''Content-Length: '' (user_agent_line v)"
    by (simp add: user_agent_line_def)
  have t: "trimmed (number (int (length body)) @ [CR]) = number (int (length body))"
    by (rule trimmed_CR) (auto simp: number_def number_nat_no_space)
  show ?thesis
    unfolding header_lines_post_body[OF wf m]
    using r u t by simp
qed


lemma sent_send_request: "sent r (send_request v q x r) = http_data v q x"
  by (simp add: sent_def send_request_def socket_write_def)

lemma written_send_request:
  "written (local_socket (send_request v q x r)) = written (local_socket r) @ http_data v q x"
  by (simp add: send_request_def socket_write_def)

lemma written_construct:
  "written (local_socket (construct v sock q x)) = written sock @ http_data v q x"
  by (simp add: construct_def written_send_request)

text \<open>
  C10. \<open>send_request\<close> appends the encoded request to the bytes written to the socket. For a
  well-formed \<open>POST\<close> or \<open>PUT\<close> request the header block of the bytes it writes has the line
  \<open>Content-Type: application/x-www-form-urlencoded\<close> also when there is no outgoing device,
  and then no \<open>Content-Length\<close> line; with a device the \<open>Content-Length\<close> line follows. For
  every other verb the header block is the request line, the \<open>Host\<close> line and the
  \<open>User-Agent\<close> line only.
\<close>

theorem content_type_header:
  assumes "well_formed_request v q"
  shows "written (local_socket (send_request v q outgoingData r))
           = written (local_socket r) @ sent r (send_request v q outgoingData r) \<and>
         (verb q = ''POST'' \<or> verb q = ''PUT'' \<longrightarrow>
            header_lines (sent r (send_request v q None r)) =
              [request_line q, ''Host: multipass'' @ [CR], user_agent_line v,
               ''Content-Type: application/x-www-form-urlencoded'' @ [CR]] \<and>
            header_lines (sent r (send_request v q (Some body) r)) =
              [request_line q, ''Host: multipass'' @ [CR], user_agent_line v,
               ''Content-Type: application/x-www-form-urlencoded'' @ [CR],
               ''Content-Length: '' @ number (int (length body)) @ [CR]]) \<and>
         (verb q \<noteq> ''POST'' \<and> verb q \<noteq> ''PUT'' \<longrightarrow>
            header_lines (sent r (send_request v q outgoingData r)) =
              [request_line q, ''Host: multipass'' @ [CR], user_agent_line v])"
  unfolding sent_send_request written_send_request
  using assms header_lines_post_no_body[of v q] header_lines_post_body[of v q body]
    header_lines_other[of v q outgoingData]
  by blast

theorem content_type_header_witness:
  "well_formed_request ''1.0'' \<lparr>verb = ''POST'', url = ''/1.0/instances''\<rparr> \<and>
   header_lines (sent fresh_reply
       (send_request ''1.0'' \<lparr>verb = ''POST'', url = ''/1.0/instances''\<rparr> None fresh_reply)) =
     [''POST /1.0/instances HTTP/1.1'' @ [CR], ''Host: multipass'' @ [CR],
      ''User-Agent: Multipass/1.0'' @ [CR],
      ''Content-Type: application/x-www-form-urlencoded'' @ [CR]] \<and>
   well_formed_request ''1.0'' \<lparr>verb = ''GET'', url = ''/1.0''\<rparr> \<and>
   header_lines (sent fresh_reply
       (send_request ''1.0'' \<lparr>verb = ''GET'', url = ''/1.0''\<rparr> (Some ''abc'') fresh_reply)) =
     [''GET /1.0 HTTP/1.1'' @ [CR], ''Host: multipass'' @ [CR],
      ''User-Agent: Multipass/1.0'' @ [CR]]"
proof -
  have p: "well_formed_request ''1.0'' \<lparr>verb = ''POST'', url = ''/1.0/instances''\<rparr>"
    by (simp add: well_formed_request_def)
  have g: "well_formed_request ''1.0'' \<lparr>verb = ''GET'', url = ''/1.0''\<rparr>"
    by (simp add: well_formed_request_def)
  show ?thesis
    using p g content_type_header[OF p, of None fresh_reply "[]"]
      content_type_header[OF g, of "Some ''abc''" fresh_reply "[]"]
    by (simp add: request_line_def user_agent_line_def)
qed

text \<open>
  C4 on the code. For a \<open>POST\<close> request with the body \<open>abc\<close>, the \<open>Content-Length\<close> header of the
  bytes the constructor writes to the socket is 3, the number of body bytes, but the bytes
  after the blank line are the body followed by CR LF, not the body alone: \<open>send_request\<close>
  appends CR LF after the body as it does after the headers of a request without body.
\<close>

theorem body_followed_by_CRLF:
  "header_value ''Content-Length''
     (header_lines (written (local_socket
        (construct ''1.0'' \<lparr>connected = True, available = [], written = []\<rparr>
           \<lparr>verb = ''POST'', url = ''/1.0/x''\<rparr> (Some ''abc''))))) = Some ''3'' \<and>
   toInt ''3'' = int (length ''abc'') \<and>
   after_blank_line (written (local_socket
        (construct ''1.0'' \<lparr>connected = True, available = [], written = []\<rparr>
           \<lparr>verb = ''POST'', url = ''/1.0/x''\<rparr> (Some ''abc'')))) = ''abc'' @ CRLF \<and>
   after_blank_line (written (local_socket
        (construct ''1.0'' \<lparr>connected = True, available = [], written = []\<rparr>
           \<lparr>verb = ''POST'', url = ''/1.0/x''\<rparr> (Some ''abc'')))) \<noteq> ''abc''"
proof -
  have p: "well_formed_request ''1.0'' \<lparr>verb = ''POST'', url = ''/1.0/x''\<rparr>"
    by (simp add: well_formed_request_def)
  have m: "verb \<lparr>verb = ''POST'', url = ''/1.0/x''\<rparr> = ''POST'' \<or>
           verb \<lparr>verb = ''POST'', url = ''/1.0/x''\<rparr> = ''PUT''" by simp
  have n: "number (int (length ''abc'')) = ''3''"
    by (simp add: number_def number_nat.simps digit_char_def)
  have t: "toInt ''3'' = int (length ''abc'')"
    by (simp add: toInt_def digit_value_def)
  show ?thesis
    unfolding written_construct
    using header_value_content_length[OF p m, of "''abc''"] after_blank_line_post_body[OF p m, of "''abc''"] n t
    by simp
qed

section \<open>Reading from the socket and parsing\<close>

lemma len_le: "n \<le> 65536 \<Longrightarrow> n \<le> len"
  by (simp add: len_def)

lemma len_pos: "0 < len"
  by (simp add: len_def)

lemma read_loop_nothing:
  assumes "connected (local_socket r)" "available (local_socket r) = []"
  shows "read_loop r = Inr r"
  using assms by (subst read_loop.simps) (simp add: socket_read_def)

lemma read_loop_single:
  assumes "connected (local_socket r)" "available (local_socket r) = bs" "bs \<noteq> []"
    "length bs \<le> len" "length (reply_data r) = len"
  shows "read_loop r = Inr (r\<lparr>local_socket := (local_socket r)\<lparr>available := []\<rparr>,
                             reply_data := bs @ drop (length bs) (reply_data r)\<rparr>)"
proof -
  let ?r1 = "r\<lparr>local_socket := (local_socket r)\<lparr>available := []\<rparr>,
               reply_data := bs @ drop (length bs) (reply_data r)\<rparr>"
  have "read_loop r = read_loop ?r1"
    using assms by (subst read_loop.simps) (simp add: socket_read_def)
  also have "\<dots> = Inr ?r1"
    using assms by (subst read_loop_nothing) simp_all
  finally show ?thesis .
qed

lemma notification_single:
  assumes "connected (local_socket r)" "available (local_socket r) = []" "bs \<noteq> []"
    "length bs \<le> len" "length (reply_data r) = len"
  shows "notification bs r =
     (case parse_reply (r\<lparr>local_socket := (local_socket r)\<lparr>available := []\<rparr>,
                          reply_data := bs @ drop (length bs) (reply_data r)\<rparr>) of
        Inl f \<Rightarrow> Inl f
      | Inr r2 \<Rightarrow> Inr (emit Finished_signal (setFinished True r2)))"
proof -
  have "read_loop (receive bs r) =
     Inr (r\<lparr>local_socket := (local_socket r)\<lparr>available := []\<rparr>,
            reply_data := bs @ drop (length bs) (reply_data r)\<rparr>)"
    using assms
    by (subst read_loop_single[where bs = bs]) (simp_all add: receive_def)
  then show ?thesis by (simp add: notification_def read_reply_def)
qed

lemma construct_fields:
  "connected (local_socket (construct v sock q out)) = connected sock"
  "available (local_socket (construct v sock q out)) = available sock"
  "reply_data (construct v sock q out) = replicate len NUL"
  "content_data (construct v sock q out) = []"
  "offset (construct v sock q out) = 0"
  "\<not> chunked_transfer_encoding (construct v sock q out)"
  "error (construct v sock q out) = NoError"
  "errorString (construct v sock q out) = []"
  "\<not> isFinished (construct v sock q out)"
  "emitted (construct v sock q out) = []"
  "openMode (construct v sock q out) = ReadOnly"
  by (simp_all add: construct_def send_request_def socket_write_def)

lemma parse_status_fields:
  "chunked_transfer_encoding (parse_status s r) = chunked_transfer_encoding r"
  "content_data (parse_status s r) = content_data r"
  "reply_data (parse_status s r) = reply_data r"
  "local_socket (parse_status s r) = local_socket r"
  "offset (parse_status s r) = offset r"
  "isFinished (parse_status s r) = isFinished r"
  "openMode (parse_status s r) = openMode r"
  by (simp_all add: parse_status_def setError_def emit_def Let_def split: option.splits prod.splits)

lemma fresh_reply_fields:
  "connected (local_socket fresh_reply)" "available (local_socket fresh_reply) = []"
  "reply_data fresh_reply = replicate len NUL" "content_data fresh_reply = []"
  "offset fresh_reply = 0" "\<not> chunked_transfer_encoding fresh_reply"
  "error fresh_reply = NoError" "errorString fresh_reply = []" "\<not> isFinished fresh_reply"
  "emitted fresh_reply = []" "openMode fresh_reply = ReadOnly"
  by (simp_all add: fresh_reply_def construct_fields)

text \<open>The buffer after the first notification of a fresh reply.\<close>

lemma notification_fresh:
  assumes "bs \<noteq> []" "length bs \<le> len"
  shows "notification bs fresh_reply =
     (case parse_reply (fresh_reply\<lparr>local_socket := (local_socket fresh_reply)\<lparr>available := []\<rparr>,
                          reply_data := bs @ replicate (len - length bs) NUL\<rparr>) of
        Inl f \<Rightarrow> Inl f
      | Inr r2 \<Rightarrow> Inr (emit Finished_signal (setFinished True r2)))"
proof -
  have "read_loop (receive bs fresh_reply) =
     Inr (fresh_reply\<lparr>local_socket := (local_socket fresh_reply)\<lparr>available := []\<rparr>,
                          reply_data := bs @ replicate (len - length bs) NUL\<rparr>)"
    using assms
    by (subst read_loop_single[where bs = bs]) (simp_all add: receive_def fresh_reply_fields)
  then show ?thesis by (simp add: notification_def read_reply_def)
qed

lemma not_contains_replicate:
  "n \<noteq> [] \<Longrightarrow> hd n \<noteq> c \<Longrightarrow> \<not> contains (replicate k c) n"
  by (induction k) (auto simp: neq_Nil_conv)

lemma not_startsWith_replicate: "c \<noteq> d \<Longrightarrow> \<not> startsWith (replicate k c) d"
  by (cases k) auto

lemma trimmed_replicate_NUL: "trimmed (replicate k NUL) = replicate k NUL"
  by (cases k) (simp_all add: trimmed_def ascii_isspace_def replicate_append_same)

lemmas eval_simps =
  parse_reply_def parse_status_def fromLatin1_def isdigit_def toInt_def digit_value_def
  statusCodeFromHttp_def setError_def emit_def setFinished_def isEmpty_def
  split_no_sep not_contains_replicate not_startsWith_replicate trimmed_replicate_NUL
  fresh_reply_fields

lemma split_header_block:
  "\<forall>h \<in> set hs. LF \<notin> set h \<Longrightarrow>
   split (concat (map (\<lambda>h. h @ CRLF) hs) @ rest) LF = map (\<lambda>h. h @ [CR]) hs @ split rest LF"
proof (induction hs)
  case Nil
  then show ?case by simp
next
  case (Cons h hs)
  have "split (concat (map (\<lambda>h. h @ CRLF) (h # hs)) @ rest) LF
        = split ((h @ [CR]) @ LF # (concat (map (\<lambda>h. h @ CRLF) hs) @ rest)) LF"
    by simp
  also have "\<dots> = (h @ [CR]) # split (concat (map (\<lambda>h. h @ CRLF) hs) @ rest) LF"
    using Cons.prems by (subst split_append_sep) auto
  finally show ?case using Cons by simp
qed

lemma header_loop_headers:
  assumes "\<forall>h \<in> set hs. h \<noteq> [] \<and> \<not> startsWith h CR"
  shows "header_loop (map (\<lambda>h. h @ [CR]) hs @ rest) r =
         header_loop rest
           (r\<lparr>chunked_transfer_encoding := chunked_transfer_encoding r \<or>
                (\<exists>h \<in> set hs. contains (h @ [CR]) ''Transfer-Encoding'' \<and> contains (h @ [CR]) ''chunked'')\<rparr>)"
  using assms
proof (induction hs arbitrary: r)
  case Nil
  then show ?case by simp
next
  case (Cons h hs)
  then have h: "\<not> isEmpty (h @ [CR])" "\<not> startsWith (h @ [CR]) CR"
    by (auto simp: isEmpty_def elim: startsWith.elims)
  show ?case
  proof (cases "contains (h @ [CR]) ''Transfer-Encoding'' \<and> contains (h @ [CR]) ''chunked''")
    case True
    then show ?thesis using h Cons by (simp del: contains.simps)
  next
    case False
    then show ?thesis using h Cons by (auto simp del: contains.simps)
  qed
qed

lemma header_loop_separator:
  assumes "chunked_transfer_encoding r" "1 < length rest"
  shows "header_loop ([CR] # rest) r = Inr (r\<lparr>content_data := trimmed (rest ! 1)\<rparr>)"
  using assms by (simp add: isEmpty_def)

lemma hex_nat_no_LF: "LF \<notin> set (hex_nat n)"
proof (induction n rule: hex_nat.induct)
  case (1 n)
  have d: "\<And>d. d < 16 \<Longrightarrow> hex_char d \<noteq> LF"
  proof -
    fix d :: nat assume "d < 16"
    then have "d = 0 \<or> d = 1 \<or> d = 2 \<or> d = 3 \<or> d = 4 \<or> d = 5 \<or> d = 6 \<or> d = 7 \<or> d = 8
       \<or> d = 9 \<or> d = 10 \<or> d = 11 \<or> d = 12 \<or> d = 13 \<or> d = 14 \<or> d = 15" by arith
    then show "hex_char d \<noteq> LF" by (auto simp: hex_char_def)
  qed
  show ?case
  proof (cases "n < 16")
    case True
    then show ?thesis using d[of n] by (subst hex_nat.simps) simp
  next
    case False
    then have "LF \<notin> set (hex_nat (n div 16))" using 1 by simp
    with False show ?thesis using d[of "n mod 16"] by (subst hex_nat.simps) simp
  qed
qed

lemma single_chunk_parse:
  assumes st: "LF \<notin> set status_line"
    and hs: "\<forall>h \<in> set headers. LF \<notin> set h \<and> h \<noteq> [] \<and> \<not> startsWith h CR"
    and te: "\<exists>h \<in> set headers. contains h ''Transfer-Encoding'' \<and> contains h ''chunked''"
    and rd: "reply_data r = chunked_response status_line headers [payload] @ tail"
  shows "body_of (parse_reply r) = Inr (trimmed (takeWhile (\<lambda>c. c \<noteq> LF) payload))"
proof -
  define sl where "sl = status_line @ [CR]"
  define sz where "sz = hex_nat (length payload) @ [CR]"
  define pl where "pl = payload @ [CR]"
  define after where "after = ''0'' @ CRLF @ CRLF @ tail"
  define rest where "rest = sz # split (pl @ LF # after) LF"
  have nl: "LF \<notin> set sl" "LF \<notin> set sz" "LF \<notin> set [CR]"
    using st by (simp_all add: sl_def sz_def hex_nat_no_LF)
  have e: "reply_data r =
      sl @ LF # (concat (map (\<lambda>h. h @ CRLF) headers) @ ([CR] @ LF # (sz @ LF # (pl @ LF # after))))"
    by (simp add: rd chunked_response_def chunk_encode_def sl_def sz_def pl_def after_def)
  have s4: "split (sz @ LF # (pl @ LF # after)) LF = rest"
    unfolding rest_def using nl(2) by (rule split_append_sep)
  have s3: "split ([CR] @ LF # (sz @ LF # (pl @ LF # after))) LF = [CR] # rest"
    using split_append_sep[OF nl(3), of "sz @ LF # (pl @ LF # after)"] by (simp only: s4)
  have s2: "split (concat (map (\<lambda>h. h @ CRLF) headers) @ ([CR] @ LF # (sz @ LF # (pl @ LF # after)))) LF
      = map (\<lambda>h. h @ [CR]) headers @ [CR] # rest"
    using split_header_block[of headers "[CR] @ LF # (sz @ LF # (pl @ LF # after))"] hs
    by (simp only: s3) simp
  have s: "split (reply_data r) LF = sl # (map (\<lambda>h. h @ [CR]) headers @ [CR] # rest)"
    unfolding e using split_append_sep[OF nl(1)] by (simp only: s2)
  define r1 where "r1 = parse_status sl r"
  define r2 where "r2 = r1\<lparr>chunked_transfer_encoding := chunked_transfer_encoding r1 \<or>
                (\<exists>h \<in> set headers. contains (h @ [CR]) ''Transfer-Encoding'' \<and> contains (h @ [CR]) ''chunked'')\<rparr>"
  have "\<exists>h \<in> set headers. contains (h @ [CR]) ''Transfer-Encoding'' \<and> contains (h @ [CR]) ''chunked''"
    using te contains_append by blast
  then have c: "chunked_transfer_encoding r2"
    by (simp add: r2_def)
  have ne: "split (pl @ LF # after) LF \<noteq> []" by (rule split_not_Nil)
  have l: "1 < length rest"
    using ne by (cases "split (pl @ LF # after) LF") (simp_all add: rest_def)
  have "rest ! 1 = hd (split (pl @ LF # after) LF)"
    using ne by (simp add: rest_def hd_conv_nth)
  also have "\<dots> = takeWhile (\<lambda>c. c \<noteq> LF) pl"
    by (simp only: hd_split takeWhile_LF_append)
  finally have n: "rest ! 1 = takeWhile (\<lambda>c. c \<noteq> LF) (payload @ [CR])"
    by (simp only: pl_def)
  have "parse_reply r = header_loop (map (\<lambda>h. h @ [CR]) headers @ [CR] # rest) r1"
    by (simp add: parse_reply_def s r1_def)
  also have "\<dots> = header_loop ([CR] # rest) r2"
    using hs by (subst header_loop_headers) (auto simp: r2_def)
  also have "\<dots> = Inr (r2\<lparr>content_data := trimmed (rest ! 1)\<rparr>)"
    using c l by (rule header_loop_separator)
  finally have "parse_reply r = Inr (r2\<lparr>content_data := trimmed (rest ! 1)\<rparr>)" .
  then have "body_of (parse_reply r) = Inr (trimmed (rest ! 1))"
    by (simp add: body_of_def)
  then show ?thesis
    by (simp only: n trimmed_first_line)
qed

lemma body_of_finish:
  "body_of (case x of Inl f \<Rightarrow> Inl f | Inr r2 \<Rightarrow> Inr (emit Finished_signal (setFinished True r2)))
   = body_of x"
  by (cases x) (simp_all add: body_of_def emit_def setFinished_def)

lemma chunked_response_not_Nil: "chunked_response s hs cs \<noteq> []"
  by (simp add: chunked_response_def)

lemma hex_4: "hex_nat (Suc (Suc (Suc (Suc 0)))) = ''4''"
  by (simp add: hex_nat.simps hex_char_def)

lemma notifications_two:
  "notification a r = Inr r1 \<Longrightarrow> notifications [a, b] r = notification b r1"
  by (cases "notification b r1") simp_all


lemma parse_reply_one_line:
  assumes "LF \<notin> set (reply_data r)"
  shows "parse_reply r = Inr (parse_status (reply_data r) r)"
  using assms by (simp add: parse_reply_def split_no_sep)

lemma header_loop_commute:
  assumes c: "\<And>r. chunked_transfer_encoding (g r) = chunked_transfer_encoding r"
    and u: "\<And>r. (g r)\<lparr>chunked_transfer_encoding := True\<rparr> = g (r\<lparr>chunked_transfer_encoding := True\<rparr>)"
    and d: "\<And>r x. (g r)\<lparr>content_data := x\<rparr> = g (r\<lparr>content_data := x\<rparr>)"
  shows "header_loop ls (g r) =
     (case header_loop ls r of Inl f \<Rightarrow> Inl f | Inr r2 \<Rightarrow> Inr (g r2))"
proof (induction ls arbitrary: r)
  case Nil
  then show ?case by simp
next
  case (Cons l ls)
  show ?case
    by (simp del: contains.simps add: Let_def u c d Cons.IH)
qed

lemma header_loop_malformed:
  "header_loop ls
     (emit (Error_signal ProtocolFailure)
        (setError ProtocolFailure ''Malformed HTTP response from server'' r)) =
   (case header_loop ls r of
      Inl f \<Rightarrow> Inl f
    | Inr r2 \<Rightarrow>
        Inr (emit (Error_signal ProtocolFailure)
               (setError ProtocolFailure ''Malformed HTTP response from server'' r2)))"
  by (rule header_loop_commute) (simp_all add: setError_def emit_def)

lemma scanned_no_separator:
  "\<not> (\<exists>l \<in> set ls. separator l) \<Longrightarrow> scanned ls = ls"
  by (induction ls) (auto simp: separator_def)

lemma header_loop_result:
  "header_loop ls r =
     (if \<exists>l \<in> set ls. separator l
      then (if (if chunked_transfer_encoding r \<or>
                   (\<exists>l \<in> set (scanned ls). contains l ''Transfer-Encoding'' \<and> contains l ''chunked'')
                then 1 else 0 :: nat) < length (after_separator ls)
            then Inr (r\<lparr>chunked_transfer_encoding :=
                         chunked_transfer_encoding r \<or>
                         (\<exists>l \<in> set (scanned ls). contains l ''Transfer-Encoding'' \<and> contains l ''chunked''),
                       content_data :=
                         trimmed (after_separator ls !
                           (if chunked_transfer_encoding r \<or>
                               (\<exists>l \<in> set (scanned ls). contains l ''Transfer-Encoding'' \<and> contains l ''chunked'')
                            then 1 else 0))\<rparr>)
            else Inl IteratorPastEnd)
      else Inr (r\<lparr>chunked_transfer_encoding :=
                   chunked_transfer_encoding r \<or>
                   (\<exists>l \<in> set (scanned ls). contains l ''Transfer-Encoding'' \<and> contains l ''chunked'')\<rparr>))"
proof (induction ls arbitrary: r)
  case Nil
  then show ?case by simp
next
  case (Cons l ls)
  show ?case
  proof (cases "separator l")
    case True
    then have a: "after_separator (l # ls) = ls" "scanned (l # ls) = [l]"
      by (simp add: after_separator_def, simp add: separator_def)
    have s: "isEmpty l \<or> startsWith l CR" using True by (simp add: separator_def)
    show ?thesis
      using True s unfolding a
      by (cases "contains l ''Transfer-Encoding'' \<and> contains l ''chunked''")
         (auto simp del: contains.simps simp: Let_def)
  next
    case False
    then have a: "after_separator (l # ls) = after_separator ls" "scanned (l # ls) = l # scanned ls"
      by (simp add: after_separator_def, simp add: separator_def)
    have s: "\<not> (isEmpty l \<or> startsWith l CR)" using False by (simp add: separator_def)
    have e: "(\<exists>x \<in> set (l # ls). separator x) = (\<exists>x \<in> set ls. separator x)"
      using False by simp
    show ?thesis
    proof (cases "contains l ''Transfer-Encoding'' \<and> contains l ''chunked''")
      case True
      have "header_loop (l # ls) r = header_loop ls (r\<lparr>chunked_transfer_encoding := True\<rparr>)"
        using s True by (simp del: contains.simps add: Let_def)
      then show ?thesis
        unfolding e a using True
        by (simp del: contains.simps add: Cons.IH)
    next
      case F: False
      have "header_loop (l # ls) r = header_loop ls r"
        using s F by (auto simp del: contains.simps simp: Let_def)
      then show ?thesis
        unfolding e a using F
        by (auto simp del: contains.simps simp: Cons.IH)
    qed
  qed
qed

lemma notification_construct:
  assumes "connected sock" "available sock = []" "bs \<noteq> []" "length bs \<le> len"
  shows "notification bs (construct v sock q out) =
     (case parse_reply ((construct v sock q out)
              \<lparr>local_socket := (local_socket (construct v sock q out))\<lparr>available := []\<rparr>,
               reply_data := bs @ replicate (len - length bs) NUL\<rparr>) of
        Inl f \<Rightarrow> Inl f
      | Inr r2 \<Rightarrow> Inr (emit Finished_signal (setFinished True r2)))"
  using assms
  by (subst notification_single) (simp_all add: construct_fields)


lemmas eval_more = eval_simps trimmed_def ascii_isspace_def body_of_def error_of_def chunked_of_def
  buffer_of_def finished_of_def

section \<open>Chunked responses\<close>

text \<open>
  C1, as the code has it. A chunked response with a single chunk that arrives in one readiness
  notification and fits the buffer yields as body the first line of the chunk's payload, with
  white space trimmed at both ends: \<open>parse_reply\<close> skips the chunk-size line and takes the one
  line after it. The body is the payload exactly when the payload has no line feed and no
  white space at its ends.
\<close>

theorem single_chunk_body:
  assumes "connected sock" "available sock = []"
    and "LF \<notin> set status_line"
    and "\<forall>h \<in> set headers. LF \<notin> set h \<and> h \<noteq> [] \<and> \<not> startsWith h CR"
    and "\<exists>h \<in> set headers. contains h ''Transfer-Encoding'' \<and> contains h ''chunked''"
    and "length (chunked_response status_line headers [payload]) \<le> len"
  shows "body_of (notification (chunked_response status_line headers [payload])
                   (construct v sock q out))
           = Inr (trimmed (takeWhile (\<lambda>c. c \<noteq> LF) payload)) \<and>
         (LF \<notin> set payload \<and> trimmed payload = payload \<longrightarrow>
            body_of (notification (chunked_response status_line headers [payload])
                       (construct v sock q out)) = Inr payload)"
proof -
  let ?W = "chunked_response status_line headers [payload]"
  let ?r = "construct v sock q out"
  let ?r1 = "?r\<lparr>local_socket := (local_socket ?r)\<lparr>available := []\<rparr>,
                reply_data := ?W @ drop (length ?W) (reply_data ?r)\<rparr>"
  have n: "notification ?W ?r =
     (case parse_reply ?r1 of
        Inl f \<Rightarrow> Inl f
      | Inr r2 \<Rightarrow> Inr (emit Finished_signal (setFinished True r2)))"
    using assms(1,2,6)
    by (intro notification_single) (simp_all add: construct_fields chunked_response_not_Nil)
  have rd: "reply_data ?r1 = ?W @ drop (length ?W) (reply_data ?r)" by simp
  have b: "body_of (notification ?W ?r) = Inr (trimmed (takeWhile (\<lambda>c. c \<noteq> LF) payload))"
    unfolding n body_of_finish
    using assms(3,4,5) rd by (rule single_chunk_parse)
  have "trimmed (takeWhile (\<lambda>c. c \<noteq> LF) payload) = payload"
    if "LF \<notin> set payload" "trimmed payload = payload"
  proof -
    have "takeWhile (\<lambda>c. c \<noteq> LF) payload = payload"
      using that(1) by (rule takeWhile_all)
    then show ?thesis using that(2) by (simp only:)
  qed
  with b show ?thesis by metis
qed

theorem single_chunk_body_witness:
  "LF \<notin> set ''HTTP/1.1 200 OK'' \<and>
   LF \<notin> set ''Transfer-Encoding: chunked'' \<and>
   contains ''Transfer-Encoding: chunked'' ''Transfer-Encoding'' \<and>
   contains ''Transfer-Encoding: chunked'' ''chunked'' \<and>
   length (chunked_response ''HTTP/1.1 200 OK'' [''Transfer-Encoding: chunked''] [''test'']) \<le> len \<and>
   LF \<notin> set ''test'' \<and> trimmed ''test'' = ''test'' \<and>
   body_of (notification
              (chunked_response ''HTTP/1.1 200 OK'' [''Transfer-Encoding: chunked''] [''test''])
              fresh_reply) = Inr ''test''"
proof -
  have l: "length (chunked_response ''HTTP/1.1 200 OK'' [''Transfer-Encoding: chunked''] [''test'']) \<le> len"
    by (simp add: chunked_response_def chunk_encode_def hex_4 len_def)
  have t: "trimmed ''test'' = ''test''"
    by (simp add: trimmed_def ascii_isspace_def)
  have h: "\<forall>h \<in> set [''Transfer-Encoding: chunked'']. LF \<notin> set h \<and> h \<noteq> [] \<and> \<not> startsWith h CR"
    by simp
  have c: "\<exists>h \<in> set [''Transfer-Encoding: chunked''].
      contains h ''Transfer-Encoding'' \<and> contains h ''chunked''"
    by simp
  have s: "connected \<lparr>connected = True, available = [], written = []\<rparr>"
    "available \<lparr>connected = True, available = [], written = []\<rparr> = []"
    "LF \<notin> set ''HTTP/1.1 200 OK''" "LF \<notin> set ''test''"
    "LF \<notin> set ''Transfer-Encoding: chunked''"
    "contains ''Transfer-Encoding: chunked'' ''Transfer-Encoding''"
    "contains ''Transfer-Encoding: chunked'' ''chunked''"
    by simp_all
  have "body_of (notification
              (chunked_response ''HTTP/1.1 200 OK'' [''Transfer-Encoding: chunked''] [''test''])
              fresh_reply) = Inr ''test''"
    using single_chunk_body[OF s(1) s(2) s(3) h c l, of "''1.0''" "\<lparr>verb = ''GET'', url = ''/1.0''\<rparr>" None]
      s(4) t
    unfolding fresh_reply_def by blast
  with l t s show ?thesis by blast
qed

lemma two_chunks:
  "body_of (notification
      (chunked_response ''HTTP/1.1 200 OK'' [''Transfer-Encoding: chunked''] [''test'', ''data''])
      fresh_reply) = Inr ''test''"
proof -
  have w: "chunked_response ''HTTP/1.1 200 OK'' [''Transfer-Encoding: chunked''] [''test'', ''data'']
     = ''HTTP/1.1 200 OK'' @ CRLF @ ''Transfer-Encoding: chunked'' @ CRLF @ CRLF @
       ''4'' @ CRLF @ ''test'' @ CRLF @ ''4'' @ CRLF @ ''data'' @ CRLF @ ''0'' @ CRLF @ CRLF"
    by (simp add: chunked_response_def chunk_encode_def hex_4)
  have l: "length (''HTTP/1.1 200 OK'' @ CRLF @ ''Transfer-Encoding: chunked'' @ CRLF @ CRLF @
       ''4'' @ CRLF @ ''test'' @ CRLF @ ''4'' @ CRLF @ ''data'' @ CRLF @ ''0'' @ CRLF @ CRLF) = 70"
    by simp
  show ?thesis
    unfolding w
    apply (subst notification_fresh, simp, simp add: len_le)
    unfolding l
    apply (simp add: eval_simps body_of_def trimmed_def ascii_isspace_def)
    done
qed

lemma split_delivery:
  "body_of (notifications
      [''HTTP/1.1 200 OK'' @ CRLF @ ''Transfer-Encoding: chunked'' @ CRLF @ CRLF @ ''4'' @ CRLF @ ''te'',
       ''st'' @ CRLF @ ''0'' @ CRLF @ CRLF]
      fresh_reply) = Inr ''Transfer-Encoding: chunked''"
proof -
  define r1 where "r1 = fresh_reply
     \<lparr>local_socket := (local_socket fresh_reply)\<lparr>available := []\<rparr>,
      reply_data := ''HTTP/1.1 200 OK'' @ CRLF @ ''Transfer-Encoding: chunked'' @ CRLF @ CRLF @ ''4'' @ CRLF @ ''te''
                    @ replicate (len - 52) NUL,
      content_data := ''te'' @ replicate (len - 52) NUL,
      chunked_transfer_encoding := True,
      isFinished := True,
      emitted := [Finished_signal]\<rparr>"
  have l: "length (''HTTP/1.1 200 OK'' @ CRLF @ ''Transfer-Encoding: chunked'' @ CRLF @ CRLF @ ''4'' @ CRLF @ ''te'') = 52"
    by simp
  have k: "len - 52 \<noteq> 0" by (simp add: len_def)
  have n1: "notification (''HTTP/1.1 200 OK'' @ CRLF @ ''Transfer-Encoding: chunked'' @ CRLF @ CRLF @ ''4'' @ CRLF @ ''te'')
     fresh_reply = Inr r1"
    apply (subst notification_fresh, simp, simp add: len_le)
    unfolding l using k
    apply (simp add: eval_simps r1_def trimmed_def ascii_isspace_def)
    done
  have n2: "body_of (notification (''st'' @ CRLF @ ''0'' @ CRLF @ CRLF) r1) = Inr ''Transfer-Encoding: chunked''"
  proof -
    have lr: "length (reply_data r1) = len" by (simp add: r1_def len_def)
    have c: "connected (local_socket r1)" "available (local_socket r1) = []"
      by (simp_all add: r1_def fresh_reply_fields)
    show ?thesis
      apply (subst notification_single[OF c _ _ lr], simp, simp add: len_le)
      apply (simp add: r1_def)
      apply (simp add: eval_simps body_of_def trimmed_def ascii_isspace_def)
      done
  qed
  show ?thesis using n1 n2 by (simp add: body_of_def split: sum.splits)
qed

text \<open>
  C1 fails as stated. A body of two chunks is not reassembled: the content is the first chunk
  only. And the same single-chunk response gives another body when it arrives in two
  readiness notifications instead of one.
\<close>

theorem chunked_reassembly_counterexample:
  "body_of (notification
      (chunked_response ''HTTP/1.1 200 OK'' [''Transfer-Encoding: chunked''] [''test'', ''data''])
      fresh_reply) = Inr ''test'' \<and>
   concat [''test'', ''data''] \<noteq> ''test'' \<and>
   (''HTTP/1.1 200 OK'' @ CRLF @ ''Transfer-Encoding: chunked'' @ CRLF @ CRLF @ ''4'' @ CRLF @ ''te'')
     @ (''st'' @ CRLF @ ''0'' @ CRLF @ CRLF)
     = chunked_response ''HTTP/1.1 200 OK'' [''Transfer-Encoding: chunked''] [''test''] \<and>
   body_of (notification
      (chunked_response ''HTTP/1.1 200 OK'' [''Transfer-Encoding: chunked''] [''test''])
      fresh_reply) = Inr ''test'' \<and>
   body_of (notifications
      [''HTTP/1.1 200 OK'' @ CRLF @ ''Transfer-Encoding: chunked'' @ CRLF @ CRLF @ ''4'' @ CRLF @ ''te'',
       ''st'' @ CRLF @ ''0'' @ CRLF @ CRLF]
      fresh_reply) = Inr ''Transfer-Encoding: chunked''"
proof -
  have w: "chunked_response ''HTTP/1.1 200 OK'' [''Transfer-Encoding: chunked''] [''test'']
     = ''HTTP/1.1 200 OK'' @ CRLF @ ''Transfer-Encoding: chunked'' @ CRLF @ CRLF @
       ''4'' @ CRLF @ ''test'' @ CRLF @ ''0'' @ CRLF @ CRLF"
    by (simp add: chunked_response_def chunk_encode_def hex_4)
  have one: "body_of (notification
      (chunked_response ''HTTP/1.1 200 OK'' [''Transfer-Encoding: chunked''] [''test''])
      fresh_reply) = Inr ''test''"
    unfolding w
    apply (subst notification_fresh, simp, simp add: len_le)
    apply (simp add: eval_more)
    done
  have c: "concat [''test'', ''data''] \<noteq> ''test''" by simp
  from two_chunks split_delivery one c w show ?thesis by simp
qed

section \<open>The receive buffer\<close>

lemma read_loop_two_reads:
  "read_loop (receive (replicate len CHR ''A'' @ ''B'') fresh_reply) =
     Inr (fresh_reply\<lparr>local_socket := (local_socket fresh_reply)\<lparr>available := []\<rparr>,
                      reply_data := CHR ''B'' # replicate (len - 1) CHR ''A''\<rparr>)"
proof -
  define rb where "rb = fresh_reply\<lparr>local_socket := (local_socket fresh_reply)\<lparr>available := ''B''\<rparr>,
                      reply_data := replicate len CHR ''A''\<rparr>"
  have s: "socket_read len (local_socket (receive (replicate len CHR ''A'' @ ''B'') fresh_reply))
     = (int len, replicate len CHR ''A'', (local_socket fresh_reply)\<lparr>available := ''B''\<rparr>)"
    by (simp add: socket_read_def receive_def fresh_reply_fields)
  have "read_loop (receive (replicate len CHR ''A'' @ ''B'') fresh_reply) = read_loop rb"
    apply (subst read_loop.simps)
    apply (simp only: s prod.case)
    apply (simp add: receive_def fresh_reply_fields len_pos rb_def)
    done
  also have "\<dots> = Inr (rb\<lparr>local_socket := (local_socket rb)\<lparr>available := []\<rparr>,
                             reply_data := ''B'' @ drop (length ''B'') (reply_data rb)\<rparr>)"
    by (rule read_loop_single) (simp_all add: rb_def fresh_reply_fields len_def)
  finally show ?thesis by (simp add: rb_def)
qed

lemma two_reads_buffer:
  "buffer_of (notification (replicate len CHR ''A'' @ ''B'') fresh_reply)
     = Inr (CHR ''B'' # replicate (len - 1) CHR ''A'')"
proof -
  let ?r = "fresh_reply\<lparr>local_socket := (local_socket fresh_reply)\<lparr>available := []\<rparr>,
                      reply_data := CHR ''B'' # replicate (len - 1) CHR ''A''\<rparr>"
  have "LF \<notin> set (reply_data ?r)" by simp
  then have "parse_reply ?r = Inr (parse_status (reply_data ?r) ?r)"
    by (rule parse_reply_one_line)
  then show ?thesis
    unfolding notification_def read_reply_def read_loop_two_reads
    by (simp add: buffer_of_def parse_status_fields emit_def setFinished_def)
qed

text \<open>
  C3 on the code. A response that arrives in two readiness notifications is not accumulated:
  the bytes of the second notification replace the first bytes of the buffer, and the parse
  that follows reads the mixture. Within one notification, a second read replaces the first
  bytes of the first read in the same way.
\<close>

theorem buffer_overwritten:
  "buffer_of (notifications [''HTTP/1.1 200 OK'' @ CRLF @ CRLF, ''hello'' @ [LF]] fresh_reply)
     = Inr (''hello'' @ [LF] @ ''.1 200 OK'' @ CRLF @ CRLF @ replicate (len - 19) NUL) \<and>
   body_of (notifications [''HTTP/1.1 200 OK'' @ CRLF @ CRLF, ''hello'' @ [LF]] fresh_reply)
     = Inr (replicate (len - 19) NUL) \<and>
   error_of (notifications [''HTTP/1.1 200 OK'' @ CRLF @ CRLF, ''hello'' @ [LF]] fresh_reply)
     = Inr (ProtocolFailure, ''Malformed HTTP response from server'') \<and>
   buffer_of (notification (replicate len CHR ''A'' @ ''B'') fresh_reply)
     = Inr (CHR ''B'' # replicate (len - 1) CHR ''A'')"
proof -
  note w = two_reads_buffer
  define r1 where "r1 = fresh_reply
     \<lparr>local_socket := (local_socket fresh_reply)\<lparr>available := []\<rparr>,
      reply_data := ''HTTP/1.1 200 OK'' @ CRLF @ CRLF @ replicate (len - 19) NUL,
      content_data := replicate (len - 19) NUL,
      isFinished := True,
      emitted := [Finished_signal]\<rparr>"
  have k: "len - 19 \<noteq> 0" by (simp add: len_def)
  have l: "length (''HTTP/1.1 200 OK'' @ CRLF @ CRLF) = 19" by simp
  have n1: "notification (''HTTP/1.1 200 OK'' @ CRLF @ CRLF) fresh_reply = Inr r1"
    apply (subst notification_fresh, simp, simp add: len_le)
    unfolding l using k
    apply (simp add: eval_more r1_def)
    done
  have lr: "length (reply_data r1) = len" by (simp add: r1_def len_def)
  have c: "connected (local_socket r1)" "available (local_socket r1) = []"
    by (simp_all add: r1_def fresh_reply_fields)
  have n2: "buffer_of (notification (''hello'' @ [LF]) r1)
     = Inr (''hello'' @ [LF] @ ''.1 200 OK'' @ CRLF @ CRLF @ replicate (len - 19) NUL) \<and>
      body_of (notification (''hello'' @ [LF]) r1) = Inr (replicate (len - 19) NUL) \<and>
      error_of (notification (''hello'' @ [LF]) r1)
     = Inr (ProtocolFailure, ''Malformed HTTP response from server'')"
    apply (subst notification_single[OF c _ _ lr], simp, simp add: len_le)
    apply (subst notification_single[OF c _ _ lr], simp, simp add: len_le)
    apply (subst notification_single[OF c _ _ lr], simp, simp add: len_le)
    using k
    apply (simp add: r1_def)
    apply (simp add: eval_more)
    done
  show ?thesis unfolding notifications_two[OF n1] using n2 w by blast
qed

section \<open>A malformed status line\<close>

text \<open>
  C5, as the code has it. A newly constructed reply receives, in one readiness notification,
  bytes that fit the buffer and whose first line does not match the status line pattern.
  \<open>parse_status\<close> sets the error \<open>ProtocolFailure\<close> with the message
  \<open>Malformed HTTP response from server\<close>, and \<open>parse_reply\<close> then scans the following lines
  as for any other response. When the scan finds a separator line and the line it takes as
  the body is missing (no line follows the separator, or only one when the chunked flag is
  set), the C++ dereferences the iterator past the end. In every other case \<open>read_reply\<close>
  returns, the reply is finished with that error, and the content is the trimmed line the
  scan takes after the separator line, and empty when there is no separator line. The input
  \<open>GARBAGE\<close>, alone or followed by CR LF, gives the error and an empty body.
\<close>

theorem malformed_status_line:
  assumes "connected sock" "available sock = []" "bs \<noteq> []" "length bs \<le> len"
    and "split (bs @ replicate (len - length bs) NUL) LF = status # reply_lines"
    and "http_status_regex_match (fromLatin1 status) = None"
  shows "(let res = notification bs (construct v sock q out);
              detected = (\<exists>l \<in> set (scanned reply_lines).
                            contains l ''Transfer-Encoding'' \<and> contains l ''chunked'');
              k = (if detected then 1 else 0 :: nat)
          in if (\<exists>l \<in> set reply_lines. separator l) \<and> length (after_separator reply_lines) \<le> k
             then res = Inl IteratorPastEnd
             else error_of res = Inr (ProtocolFailure, ''Malformed HTTP response from server'') \<and>
                  finished_of res = Inr True \<and>
                  body_of res =
                    Inr (if \<exists>l \<in> set reply_lines. separator l
                         then trimmed (after_separator reply_lines ! k) else [])) \<and>
         error_of (notification ''GARBAGE'' fresh_reply)
           = Inr (ProtocolFailure, ''Malformed HTTP response from server'') \<and>
         body_of (notification ''GARBAGE'' fresh_reply) = Inr [] \<and>
         finished_of (notification ''GARBAGE'' fresh_reply) = Inr True \<and>
         error_of (notification (''GARBAGE'' @ CRLF) fresh_reply)
           = Inr (ProtocolFailure, ''Malformed HTTP response from server'') \<and>
         body_of (notification (''GARBAGE'' @ CRLF) fresh_reply) = Inr [] \<and>
         finished_of (notification (''GARBAGE'' @ CRLF) fresh_reply) = Inr True"
proof -
  define r1 where "r1 = (construct v sock q out)
              \<lparr>local_socket := (local_socket (construct v sock q out))\<lparr>available := []\<rparr>,
               reply_data := bs @ replicate (len - length bs) NUL\<rparr>"
  have f: "\<not> chunked_transfer_encoding r1" "content_data r1 = []"
    by (simp_all add: r1_def construct_fields)
  have n: "notification bs (construct v sock q out) =
     (case parse_reply r1 of
        Inl f \<Rightarrow> Inl f
      | Inr r2 \<Rightarrow> Inr (emit Finished_signal (setFinished True r2)))"
    unfolding r1_def using assms(1-4) by (rule notification_construct)
  have s: "split (reply_data r1) LF = status # reply_lines"
    using assms(5) by (simp add: r1_def)
  have "parse_status status r1 =
      emit (Error_signal ProtocolFailure)
        (setError ProtocolFailure ''Malformed HTTP response from server'' r1)"
    using assms(6) by (simp add: parse_status_def)
  then have p: "parse_reply r1 =
           (case header_loop reply_lines r1 of
              Inl f \<Rightarrow> Inl f
            | Inr r2 \<Rightarrow>
                Inr (emit (Error_signal ProtocolFailure)
                       (setError ProtocolFailure ''Malformed HTTP response from server'' r2)))"
    using s by (simp add: parse_reply_def header_loop_malformed)
  have a: "let res = notification bs (construct v sock q out);
              detected = (\<exists>l \<in> set (scanned reply_lines).
                            contains l ''Transfer-Encoding'' \<and> contains l ''chunked'');
              k = (if detected then 1 else 0 :: nat)
          in if (\<exists>l \<in> set reply_lines. separator l) \<and> length (after_separator reply_lines) \<le> k
             then res = Inl IteratorPastEnd
             else error_of res = Inr (ProtocolFailure, ''Malformed HTTP response from server'') \<and>
                  finished_of res = Inr True \<and>
                  body_of res =
                    Inr (if \<exists>l \<in> set reply_lines. separator l
                         then trimmed (after_separator reply_lines ! k) else [])"
    unfolding n p header_loop_result[of reply_lines r1]
    using f
    by (auto simp del: contains.simps
        simp: Let_def error_of_def finished_of_def body_of_def emit_def setError_def setFinished_def)
  have k: "len - 7 \<noteq> 0" "len - 9 \<noteq> 0" by (simp_all add: len_def)
  have b: "error_of (notification ''GARBAGE'' fresh_reply)
           = Inr (ProtocolFailure, ''Malformed HTTP response from server'') \<and>
         body_of (notification ''GARBAGE'' fresh_reply) = Inr [] \<and>
         finished_of (notification ''GARBAGE'' fresh_reply) = Inr True"
    apply (subst notification_fresh, simp, simp add: len_le)
    apply (subst notification_fresh, simp, simp add: len_le)
    apply (subst notification_fresh, simp, simp add: len_le)
    using k
    apply (simp add: eval_more)
    done
  have c: "error_of (notification (''GARBAGE'' @ CRLF) fresh_reply)
           = Inr (ProtocolFailure, ''Malformed HTTP response from server'') \<and>
         body_of (notification (''GARBAGE'' @ CRLF) fresh_reply) = Inr [] \<and>
         finished_of (notification (''GARBAGE'' @ CRLF) fresh_reply) = Inr True"
    apply (subst notification_fresh, simp, simp add: len_le)
    apply (subst notification_fresh, simp, simp add: len_le)
    apply (subst notification_fresh, simp, simp add: len_le)
    using k
    apply (simp add: eval_more)
    done
  from a b c show ?thesis by (simp only: simp_thms)
qed

theorem malformed_status_line_witness:
  "split ((''GARBAGE'' @ CRLF @ CRLF @ ''hello'' @ [LF])
            @ replicate (len - length (''GARBAGE'' @ CRLF @ CRLF @ ''hello'' @ [LF])) NUL) LF
     = (''GARBAGE'' @ [CR]) # [[CR], ''hello'', replicate (len - 17) NUL] \<and>
   http_status_regex_match (fromLatin1 (''GARBAGE'' @ [CR])) = None \<and>
   error_of (notification (''GARBAGE'' @ CRLF @ CRLF @ ''hello'' @ [LF]) fresh_reply)
     = Inr (ProtocolFailure, ''Malformed HTTP response from server'') \<and>
   finished_of (notification (''GARBAGE'' @ CRLF @ CRLF @ ''hello'' @ [LF]) fresh_reply) = Inr True \<and>
   body_of (notification (''GARBAGE'' @ CRLF @ CRLF @ ''hello'' @ [LF]) fresh_reply) = Inr ''hello''"
proof -
  have s: "split ((''GARBAGE'' @ CRLF @ CRLF @ ''hello'' @ [LF])
            @ replicate (len - length (''GARBAGE'' @ CRLF @ CRLF @ ''hello'' @ [LF])) NUL) LF
     = (''GARBAGE'' @ [CR]) # [[CR], ''hello'', replicate (len - 17) NUL]"
    by (simp add: split_no_sep)
  have m: "http_status_regex_match (fromLatin1 (''GARBAGE'' @ [CR])) = None"
    by (simp add: fromLatin1_def)
  have c: "connected \<lparr>connected = True, available = [], written = []\<rparr>"
    "available \<lparr>connected = True, available = [], written = []\<rparr> = []"
    "''GARBAGE'' @ CRLF @ CRLF @ ''hello'' @ [LF] \<noteq> []"
    "length (''GARBAGE'' @ CRLF @ CRLF @ ''hello'' @ [LF]) \<le> len"
    by (simp_all add: len_def)
  have k: "len - 17 \<noteq> 0" by (simp add: len_def)
  show ?thesis
    using s m k
      malformed_status_line[OF c s m, of "''1.0''" "\<lparr>verb = ''GET'', url = ''/1.0''\<rparr>" None]
    unfolding fresh_reply_def[symmetric]
    by (simp add: separator_def after_separator_def isEmpty_def trimmed_def ascii_isspace_def
        not_contains_replicate Let_def)
qed

text \<open>
  C5 fails as stated: with a separator line after the malformed first line, the line after it
  becomes the body.
\<close>

theorem malformed_body_counterexample:
  "error_of (notification (''GARBAGE'' @ CRLF @ CRLF @ ''hello'' @ [LF]) fresh_reply)
     = Inr (ProtocolFailure, ''Malformed HTTP response from server'') \<and>
   body_of (notification (''GARBAGE'' @ CRLF @ CRLF @ ''hello'' @ [LF]) fresh_reply)
     = Inr ''hello''"
proof -
  have k: "len - 7 \<noteq> 0" "len - 9 \<noteq> 0" by (simp_all add: len_def)
  show ?thesis
    apply (subst notification_fresh, simp, simp add: len_le)
    apply (subst notification_fresh, simp, simp add: len_le)
    using k
    apply (simp add: eval_more)
    done
qed

section \<open>Detecting the chunked transfer encoding\<close>

text \<open>
  C6, as the code has it. \<open>parse_reply\<close> scans the lines after the status line, up to and
  including the separator line. The chunked flag is detected exactly when it was set before
  or one of these lines contains the bytes \<open>Transfer-Encoding\<close> and the bytes \<open>chunked\<close>,
  compared byte for byte, so in exactly this letter case. \<open>parse_reply\<close> returns with the flag
  so set, unless there is a separator line and the line taken as the body is missing (no line
  follows the separator, or only one when the flag is set): there the C++ dereferences the
  iterator past the end.
\<close>

theorem chunked_detection:
  "chunked_of (parse_reply r) =
     (let reply_lines = tl (split (reply_data r) LF);
          detected = (chunked_transfer_encoding r \<or>
                      (\<exists>l \<in> set (scanned reply_lines).
                         contains l ''Transfer-Encoding'' \<and> contains l ''chunked''))
      in if (\<exists>l \<in> set reply_lines. separator l) \<and>
            length (after_separator reply_lines) \<le> (if detected then 1 else 0)
         then Inl IteratorPastEnd
         else Inr detected)"
proof (cases "split (reply_data r) LF")
  case Nil
  then show ?thesis using split_not_Nil by blast
next
  case (Cons status reply_lines)
  have "parse_reply r = header_loop reply_lines (parse_status status r)"
    by (simp add: parse_reply_def Cons)
  then show ?thesis
    unfolding header_loop_result[of reply_lines "parse_status status r"]
    by (auto simp del: contains.simps simp: Cons Let_def chunked_of_def parse_status_fields)
qed

theorem chunked_detection_witness:
  "chunked_of (parse_reply (fresh_reply\<lparr>reply_data := ''HTTP/1.1 200 OK'' @ CRLF
       @ ''Transfer-Encoding: chunked'' @ CRLF @ CRLF @ ''4'' @ CRLF @ ''test'' @ CRLF\<rparr>))
     = Inr True \<and>
   chunked_of (parse_reply (fresh_reply\<lparr>reply_data := ''HTTP/1.1 200 OK'' @ CRLF
       @ ''Transfer-Encoding: chunked'' @ CRLF @ CRLF\<rparr>))
     = Inl IteratorPastEnd"
  using chunked_detection[of "fresh_reply\<lparr>reply_data := ''HTTP/1.1 200 OK'' @ CRLF
       @ ''Transfer-Encoding: chunked'' @ CRLF @ CRLF @ ''4'' @ CRLF @ ''test'' @ CRLF\<rparr>"]
    chunked_detection[of "fresh_reply\<lparr>reply_data := ''HTTP/1.1 200 OK'' @ CRLF
       @ ''Transfer-Encoding: chunked'' @ CRLF @ CRLF\<rparr>"]
  by (simp add: separator_def after_separator_def isEmpty_def fresh_reply_fields Let_def)

text \<open>
  C6 fails as stated: a header in lower case is not detected, and the chunk-size line becomes
  the body.
\<close>

theorem case_insensitive_counterexample:
  "chunked_of (notification
      (''HTTP/1.1 200 OK'' @ CRLF @ ''transfer-encoding: chunked'' @ CRLF @ CRLF @
       ''4'' @ CRLF @ ''test'' @ CRLF @ ''0'' @ CRLF @ CRLF) fresh_reply) = Inr False \<and>
   body_of (notification
      (''HTTP/1.1 200 OK'' @ CRLF @ ''transfer-encoding: chunked'' @ CRLF @ CRLF @
       ''4'' @ CRLF @ ''test'' @ CRLF @ ''0'' @ CRLF @ CRLF) fresh_reply) = Inr ''4''"
proof -
  have k: "len - 59 \<noteq> 0" by (simp add: len_def)
  show ?thesis
    apply (subst notification_fresh, simp, simp add: len_le)
    apply (subst notification_fresh, simp, simp add: len_le)
    using k
    apply (simp add: eval_more)
    done
qed

section \<open>Cancellation\<close>

















section \<open>The scenario of a 404 response\<close>

text \<open>
  C9 on the code. For the response \<open>HTTP/1.1 404 Not Found\<close>, CR LF, CR LF the error is
  \<open>ContentNotFoundError\<close>, but the message is \<open>Not Found\<close> with the line's carriage return
  still at its end, and the content is the unused rest of the buffer, 65510 zero bytes. When
  only the status line and its CR LF arrive, the message is the same and the content is
  empty.
\<close>

theorem not_found_scenario:
  "error_of (notification (''HTTP/1.1 404 Not Found'' @ CRLF @ CRLF) fresh_reply)
     = Inr (ContentNotFoundError, ''Not Found'' @ [CR]) \<and>
   body_of (notification (''HTTP/1.1 404 Not Found'' @ CRLF @ CRLF) fresh_reply)
     = Inr (replicate (len - 26) NUL) \<and>
   len - 26 = 65510 \<and>
   error_of (notification (''HTTP/1.1 404 Not Found'' @ CRLF) fresh_reply)
     = Inr (ContentNotFoundError, ''Not Found'' @ [CR]) \<and>
   body_of (notification (''HTTP/1.1 404 Not Found'' @ CRLF) fresh_reply) = Inr []"
proof -
  have l: "length (''HTTP/1.1 404 Not Found'' @ CRLF @ CRLF) = 26"
    "length (''HTTP/1.1 404 Not Found'' @ CRLF) = 24" by simp_all
  have k: "len - 26 \<noteq> 0" "len - 24 \<noteq> 0" "len - 26 = 65510" by (simp_all add: len_def)
  have a: "error_of (notification (''HTTP/1.1 404 Not Found'' @ CRLF @ CRLF) fresh_reply)
     = Inr (ContentNotFoundError, ''Not Found'' @ [CR]) \<and>
   body_of (notification (''HTTP/1.1 404 Not Found'' @ CRLF @ CRLF) fresh_reply)
     = Inr (replicate (len - 26) NUL)"
    apply (subst notification_fresh, simp, simp add: len_le)
    apply (subst notification_fresh, simp, simp add: len_le)
    unfolding l using k(1)
    apply (simp add: eval_more)
    done
  have b: "error_of (notification (''HTTP/1.1 404 Not Found'' @ CRLF) fresh_reply)
     = Inr (ContentNotFoundError, ''Not Found'' @ [CR]) \<and>
   body_of (notification (''HTTP/1.1 404 Not Found'' @ CRLF) fresh_reply) = Inr []"
    apply (subst notification_fresh, simp, simp add: len_le)
    apply (subst notification_fresh, simp, simp add: len_le)
    unfolding l using k(2)
    apply (simp add: eval_more)
    done
  from a b k(3) show ?thesis by blast
qed

end
